theory Spec2Isabelle
  imports Main "HOL-Library.Multiset"
begin

section \<open>Integer arithmetic of the source language\<close>

text \<open>
  The editor computes with C++ \<open>int\<close>.  Division of two \<open>int\<close>s truncates towards
  zero and the remainder takes the sign of the dividend; a zero divisor has no result.
  Values are modelled as mathematical integers: signed overflow is undefined in the
  source language, so the model describes the runs in which none occurs.
\<close>

definition cdiv :: "int \<Rightarrow> int \<Rightarrow> int" where
  "cdiv a b = sgn a * sgn b * (\<bar>a\<bar> div \<bar>b\<bar>)"

definition crem :: "int \<Rightarrow> int \<Rightarrow> int" where
  "crem a b = a - b * cdiv a b"

definition int_div :: "int \<Rightarrow> int \<Rightarrow> int option" where
  "int_div a b = (if b = 0 then None else Some (cdiv a b))"

section \<open>Data model\<close>

text \<open>
  Modelled from the spec: class \<open>Note\<close> (declared in Note.h, outside
  PianoRoll.cpp).  The fields are those of section 3 of the specification, named after
  the accessors PianoRoll.cpp calls (\<open>pos()\<close>, \<open>length()\<close>, \<open>key()\<close>, \<open>selected()\<close>,
  \<open>oldPos()\<close>, \<open>oldLength()\<close>, \<open>oldKey()\<close>, \<open>getVolume()\<close>, \<open>getPanning()\<close>); the
  setters store the value they are given (section 4.1: the store never rejects an
  out-of-range key or position, the callers clamp before they mutate).  A \<open>MidiTime\<close> is
  its tick count.
\<close>

record Note =
  pos :: int
  length_t :: int
  key :: int
  volume :: int
  panning :: int
  selected :: bool
  oldPos :: int
  oldLength :: int
  oldKey :: int

definition setPos :: "int \<Rightarrow> Note \<Rightarrow> Note" where
  "setPos p note = note\<lparr>pos := p\<rparr>"

definition setLength :: "int \<Rightarrow> Note \<Rightarrow> Note" where
  "setLength l note = note\<lparr>length_t := l\<rparr>"

definition setKey :: "int \<Rightarrow> Note \<Rightarrow> Note" where
  "setKey k note = note\<lparr>key := k\<rparr>"

definition setSelected :: "bool \<Rightarrow> Note \<Rightarrow> Note" where
  "setSelected b note = note\<lparr>selected := b\<rparr>"

declare setPos_def [simp] setLength_def [simp] setKey_def [simp] setSelected_def [simp]

datatype Actions =
  ActionNone | ActionMoveNote | ActionResizeNote | ActionSelectNotes
  | ActionChangeNoteProperty | ActionResizeNoteEditArea

text \<open>
  A combo box model (\<open>m_quantizeModel\<close>, \<open>m_noteLenModel\<close>): the index of the current
  entry and the number that \<open>currentText()\<close> carries after its two-character prefix
  (\<open>text.right( text.length() - 2 ).toInt()\<close>).
\<close>

record ComboBoxModel =
  cb_value :: int
  cb_denominator :: int

text \<open>
  Modelled from the spec: a chord-table entry (\<open>InstrumentFunctionNoteStacking::Chord\<close>,
  declared outside PianoRoll.cpp): either a scale or a chord, with its list of semitone
  intervals; \<open>last()\<close> is the last interval and \<open>hasSemiTone\<close> is membership.
\<close>

record Chord =
  isScale :: bool
  semiTones :: "int list"

definition isEmpty :: "Chord \<Rightarrow> bool" where
  "isEmpty c = (semiTones c = [])"

definition last_interval :: "Chord \<Rightarrow> int" where
  "last_interval c = last (semiTones c)"

definition hasSemiTone :: "Chord \<Rightarrow> int \<Rightarrow> bool" where
  "hasSemiTone c t = (t \<in> set (semiTones c))"

text \<open>
  The part of the editor's state that the modelled member functions read or write.
  \<open>m_notes\<close> is the note vector of the current pattern (\<open>m_pattern->notes()\<close>), in
  iteration order; a note is identified by its index.  The constants \<open>NumOctaves\<close> and
  \<open>DefaultTicksPerTact\<close> and the static \<open>MidiTime::ticksPerTact()\<close> are declared in
  headers outside PianoRoll.cpp and are carried as parameters.
  \<open>height\<close> is the widget height, \<open>timeLinePos\<close> is \<open>m_timeLine->pos()\<close>, \<open>clipboard\<close>
  is the list of notes stored on the clipboard (\<open>None\<close> when it holds no data), and
  \<open>currentChord\<close> and \<open>currentScale\<close> are the entries that
  \<open>getChordByName( m_chordModel.currentText() )\<close> and
  \<open>getScaleByName( m_scaleModel.currentText() )\<close> return.  \<open>dragNotes\<close> and \<open>isSelection\<close>
  read \<open>m_pattern->notes()\<close> without testing the pattern; they are modelled for the states
  in which a pattern is present (\<open>dragNotes\<close> runs only in an action that pointer-down
  starts on a valid pattern).
\<close>

record PianoRoll =
  m_notes :: "Note list"
  hasValidPattern :: bool
  NumOctaves :: int
  DefaultTicksPerTact :: int
  ticksPerTact :: int
  height :: int
  m_notesEditHeight :: int
  m_action :: Actions
  m_ppt :: int
  m_currentPosition :: int
  m_startKey :: int
  m_moveStartX :: int
  m_moveStartY :: int
  m_mouseDownTick :: int
  m_mouseDownKey :: int
  m_moveBoundaryLeft :: int
  m_moveBoundaryTop :: int
  m_moveBoundaryBottom :: int
  m_startedWithShift :: bool
  m_lenOfNewNotes :: int
  m_quantizeModel :: ComboBoxModel
  m_noteLenModel :: ComboBoxModel
  m_selectStartTick :: int
  m_selectedTick :: int
  m_selectStartKey :: int
  m_selectedKeys :: int
  m_markedSemiTones :: "int list"
  m_lastNoteVolume :: int
  m_lastNotePanning :: int
  currentChord :: Chord
  currentScale :: Chord
  timeLinePos :: int
  clipboard :: "Note list option"

text \<open>
  \<open>KeysPerOctave\<close> is declared outside PianoRoll.cpp; its value is the one the
  source states where it defines \<open>OCTAVE_HEIGHT = KEY_LINE_HEIGHT * KeysPerOctave\<close> with
  the comment \<open>= 12 * 12\<close>.
\<close>

definition KeysPerOctave :: int where
  "KeysPerOctave = 12"

text \<open>
  Modelled from the spec: \<open>NumKeys\<close> (glossary: the keys of \<open>NumOctaves\<close> octaves of
  \<open>KeysPerOctave\<close> keys each).
\<close>

definition NumKeys :: "PianoRoll \<Rightarrow> int" where
  "NumKeys s = NumOctaves s * KeysPerOctave"

definition KEY_LINE_HEIGHT :: int where
  "KEY_LINE_HEIGHT = 12"

definition WHITE_KEY_WIDTH :: int where
  "WHITE_KEY_WIDTH = 64"

definition PR_BOTTOM_MARGIN :: int where
  "PR_BOTTOM_MARGIN = 16"

section \<open>Geometry and quantization\<close>

definition keyAreaBottom :: "PianoRoll \<Rightarrow> int" where
  "keyAreaBottom s = height s - PR_BOTTOM_MARGIN - m_notesEditHeight s"

definition getKey :: "PianoRoll \<Rightarrow> int \<Rightarrow> int" where
  "getKey s y =
    (let key_line_y = keyAreaBottom s - 1;
         key_num = cdiv (key_line_y - y) KEY_LINE_HEIGHT;
         key_num = key_num + m_startKey s;
         key_num = (if key_num < 0 then 0 else key_num);
         key_num = (if key_num \<ge> KeysPerOctave * NumOctaves s
                    then KeysPerOctave * NumOctaves s - 1 else key_num)
     in key_num)"

definition newNoteLen :: "PianoRoll \<Rightarrow> int option" where
  "newNoteLen s =
    (if cb_value (m_noteLenModel s) = 0 then Some (m_lenOfNewNotes s)
     else int_div (DefaultTicksPerTact s) (cb_denominator (m_noteLenModel s)))"

definition quantization :: "PianoRoll \<Rightarrow> int option" where
  "quantization s =
    (if cb_value (m_quantizeModel s) = 0
     then (if cb_value (m_noteLenModel s) > 0 then newNoteLen s
           else Some (cdiv (DefaultTicksPerTact s) 16))
     else int_div (DefaultTicksPerTact s) (cb_denominator (m_quantizeModel s)))"

section \<open>dragNotes\<close>

text \<open>
  The quantization step of \<open>dragNotes\<close>:
  \<open>off_ticks = floor( off_ticks / quantization() ) * quantization()\<close>.  Both operands of
  the division are \<open>int\<close>, so the quotient is already an integer when \<open>floor\<close> sees it.
\<close>

definition quantize_offset :: "PianoRoll \<Rightarrow> int \<Rightarrow> int option" where
  "quantize_offset s off_ticks =
    (case quantization s of
       None \<Rightarrow> None
     | Some q \<Rightarrow> (case int_div off_ticks q of
                    None \<Rightarrow> None
                  | Some d \<Rightarrow> Some (d * q)))"

text \<open>
  The offsets in ticks and keys that one call of \<open>dragNotes\<close> computes from the pointer
  position before it clamps them: pixel conversion, scroll correction and quantization.
\<close>

definition drag_raw_offsets :: "PianoRoll \<Rightarrow> int \<Rightarrow> int \<Rightarrow> bool \<Rightarrow> (int \<times> int) option" where
  "drag_raw_offsets s x y alt =
    (let off_x = x - m_moveStartX s in
     case int_div (off_x * ticksPerTact s) (m_ppt s) of
       None \<Rightarrow> None
     | Some off_ticks \<Rightarrow>
        (let off_key = getKey s y - getKey s (m_moveStartY s);
             off_ticks = off_ticks - (m_mouseDownTick s - m_currentPosition s);
             off_key = off_key - (m_mouseDownKey s - m_startKey s)
         in case (if \<not> alt then quantize_offset s off_ticks else Some off_ticks) of
              None \<Rightarrow> None
            | Some off_ticks \<Rightarrow> Some (off_ticks, off_key)))"

text \<open>The test that selects the branch which moves the selected notes.\<close>

definition moving :: "PianoRoll \<Rightarrow> bool \<Rightarrow> bool" where
  "moving s shift = (m_action s = ActionMoveNote \<and> \<not> (shift \<and> \<not> m_startedWithShift s))"

text \<open>The boundary conditions applied to the shared offsets.\<close>

definition clamp_offsets :: "PianoRoll \<Rightarrow> bool \<Rightarrow> int \<times> int \<Rightarrow> int \<times> int" where
  "clamp_offsets s shift offs =
    (case offs of (off_ticks, off_key) \<Rightarrow>
      if moving s shift then
        (let off_ticks = (if m_moveBoundaryLeft s + off_ticks < 0
                          then off_ticks + (0 - (off_ticks + m_moveBoundaryLeft s))
                          else off_ticks);
             off_key = (if m_moveBoundaryTop s + off_key > NumKeys s
                        then off_key - (NumKeys s - (m_moveBoundaryTop s + off_key))
                        else off_key);
             off_key = (if m_moveBoundaryBottom s + off_key < 0
                        then off_key + (0 - (m_moveBoundaryBottom s + off_key))
                        else off_key)
         in (off_ticks, off_key))
      else (off_ticks, off_key))"

text \<open>
  The variables that the loop over the notes carries from one note to the next:
  \<open>shift_offset\<close>, \<open>shift_ref_pos\<close> and the member \<open>m_lenOfNewNotes\<close>.
\<close>

record DragVars =
  shift_offset :: int
  shift_ref_pos :: int
  lenOfNewNotes :: int

text \<open>The body of the loop of \<open>dragNotes\<close> for one note.\<close>

definition dragNote :: "PianoRoll \<Rightarrow> bool \<Rightarrow> int \<Rightarrow> int \<Rightarrow> DragVars \<Rightarrow> Note \<Rightarrow> Note \<times> DragVars" where
  "dragNote s shift off_ticks off_key v note =
    (let p = pos note;
         note = (if m_action s = ActionResizeNote \<and> shift then
                   (let shifted_pos = oldPos note + shift_offset v;
                        shifted_pos = (if shifted_pos \<noteq> 0 \<and> p = shift_ref_pos v
                                       then shifted_pos - off_ticks else shifted_pos)
                    in setPos shifted_pos note)
                 else note)
     in if selected note then
          (if moving s shift then
             (let pos_ticks = oldPos note + off_ticks;
                  key_num = oldKey note + off_key;
                  pos_ticks = max 0 pos_ticks;
                  key_num = max 0 key_num;
                  key_num = min key_num (NumKeys s)
              in (setKey key_num (setPos pos_ticks note), v))
           else if m_action s = ActionResizeNote then
             (let ticks_new = oldLength note + off_ticks;
                  v = (if ticks_new \<le> 0 then v
                       else if shift \<and> p > shift_ref_pos v
                       then v\<lparr>shift_offset := shift_offset v + off_ticks, shift_ref_pos := p\<rparr>
                       else v);
                  ticks_new = (if ticks_new \<le> 0 then 1 else ticks_new)
              in (setLength ticks_new note, v\<lparr>lenOfNewNotes := ticks_new\<rparr>))
           else if m_action s = ActionMoveNote \<and> (shift \<and> \<not> m_startedWithShift s) then
             (let ticks_new = oldLength note + off_ticks;
                  ticks_new = (if ticks_new \<le> 0 then 1 else ticks_new)
              in (setLength ticks_new note, v\<lparr>lenOfNewNotes := ticks_new\<rparr>))
           else (note, v))
        else (note, v))"

fun dragLoop :: "(DragVars \<Rightarrow> Note \<Rightarrow> Note \<times> DragVars) \<Rightarrow> DragVars \<Rightarrow> Note list \<Rightarrow> Note list \<times> DragVars" where
  "dragLoop f v [] = ([], v)"
| "dragLoop f v (n # ns) =
    (case f v n of (n', v') \<Rightarrow>
      (case dragLoop f v' ns of (ns', v'') \<Rightarrow> (n' # ns', v'')))"

definition dragNotes :: "PianoRoll \<Rightarrow> int \<Rightarrow> int \<Rightarrow> bool \<Rightarrow> bool \<Rightarrow> PianoRoll option" where
  "dragNotes s x y alt shift =
    (case drag_raw_offsets s x y alt of
       None \<Rightarrow> None
     | Some offs \<Rightarrow>
        (case clamp_offsets s shift offs of (off_ticks, off_key) \<Rightarrow>
          (case dragLoop (dragNote s shift off_ticks off_key)
                  \<lparr>shift_offset = 0, shift_ref_pos = - 1, lenOfNewNotes = m_lenOfNewNotes s\<rparr>
                  (m_notes s) of
             (ns, v) \<Rightarrow> Some (s\<lparr>m_notes := ns, m_lenOfNewNotes := lenOfNewNotes v\<rparr>))))"

text \<open>
  A sequence of drag updates of one gesture.  An update carries the pointer position,
  the two modifiers and the scroll position (\<open>m_currentPosition\<close>, \<open>m_startKey\<close>) at the
  time of the call: the view may scroll between two updates.
\<close>

definition scrolled :: "PianoRoll \<Rightarrow> int \<Rightarrow> int \<Rightarrow> PianoRoll" where
  "scrolled s cp sk = s\<lparr>m_currentPosition := cp, m_startKey := sk\<rparr>"

fun dragSeq :: "PianoRoll \<Rightarrow> (int \<times> int \<times> bool \<times> bool \<times> int \<times> int) list \<Rightarrow> PianoRoll option" where
  "dragSeq s [] = Some s"
| "dragSeq s ((x, y, alt, shift, cp, sk) # us) =
    (case dragNotes (scrolled s cp sk) x y alt shift of
       None \<Rightarrow> None
     | Some s' \<Rightarrow> dragSeq s' us)"

section \<open>Selection\<close>

definition removeSelection :: "PianoRoll \<Rightarrow> PianoRoll" where
  "removeSelection s =
    s\<lparr>m_selectStartTick := 0, m_selectedTick := 0, m_selectStartKey := 0, m_selectedKeys := 0\<rparr>"

text \<open>
  \<open>clearSelectedNotes\<close> tests \<open>m_pattern != NULL\<close>; the model reads the flag
  \<open>hasValidPattern\<close> for it.
\<close>

definition clearSelectedNotes :: "PianoRoll \<Rightarrow> PianoRoll" where
  "clearSelectedNotes s =
    (if hasValidPattern s then s\<lparr>m_notes := map (setSelected False) (m_notes s)\<rparr>
     else s)"

definition isSelection :: "PianoRoll \<Rightarrow> bool" where
  "isSelection s = list_ex selected (m_notes s)"

text \<open>
  The test of \<open>computeSelectedNotes\<close> that a note with non-zero length lies in the
  selection rectangle (a negative length counts as 4 ticks).
\<close>

definition inSelection :: "PianoRoll \<Rightarrow> int \<Rightarrow> int \<Rightarrow> int \<Rightarrow> int \<Rightarrow> Note \<Rightarrow> bool" where
  "inSelection s sel_pos_start sel_pos_end sel_key_start sel_key_end note =
    (let len_ticks = length_t note;
         len_ticks = (if len_ticks < 0 then 4 else len_ticks);
         k = key note - m_startKey s + 1;
         pos_ticks = pos note
     in k > sel_key_start \<and> k \<le> sel_key_end \<and>
        pos_ticks + len_ticks > sel_pos_start \<and> pos_ticks < sel_pos_end)"

text \<open>The body of the loop of \<open>computeSelectedNotes\<close> for one note.\<close>

definition selectNote :: "PianoRoll \<Rightarrow> bool \<Rightarrow> int \<Rightarrow> int \<Rightarrow> int \<Rightarrow> int \<Rightarrow> Note \<Rightarrow> Note" where
  "selectNote s shift sel_pos_start sel_pos_end sel_key_start sel_key_end note =
    (let note = (if \<not> shift then setSelected False note else note)
     in if length_t note = 0 then note
        else if inSelection s sel_pos_start sel_pos_end sel_key_start sel_key_end note
        then (let sel = (shift \<and> selected note) in setSelected (\<not> sel) note)
        else note)"

text \<open>
  The selection rectangle after \<open>computeSelectedNotes\<close> has sorted its start and end:
  \<open>(sel_pos_start, sel_pos_end, sel_key_start, sel_key_end)\<close>.
\<close>

definition selectionRect :: "PianoRoll \<Rightarrow> int \<times> int \<times> int \<times> int" where
  "selectionRect s =
    (let sel_pos_start = m_selectStartTick s;
         sel_pos_end = m_selectStartTick s + m_selectedTick s;
         (sel_pos_start, sel_pos_end) =
            (if sel_pos_start > sel_pos_end then (sel_pos_end, sel_pos_start)
             else (sel_pos_start, sel_pos_end));
         sel_key_start = m_selectStartKey s - m_startKey s + 1;
         sel_key_end = sel_key_start + m_selectedKeys s;
         (sel_key_start, sel_key_end) =
            (if sel_key_start > sel_key_end then (sel_key_end, sel_key_start)
             else (sel_key_start, sel_key_end))
     in (sel_pos_start, sel_pos_end, sel_key_start, sel_key_end))"

definition noSelection :: "PianoRoll \<Rightarrow> bool" where
  "noSelection s =
    (m_selectStartTick s = 0 \<and> m_selectedTick s = 0 \<and>
     m_selectStartKey s = 0 \<and> m_selectedKeys s = 0)"

definition computeSelectedNotes :: "PianoRoll \<Rightarrow> bool \<Rightarrow> PianoRoll" where
  "computeSelectedNotes s shift =
    (if noSelection s then s
     else
       (case selectionRect s of
          (sel_pos_start, sel_pos_end, sel_key_start, sel_key_end) \<Rightarrow>
            (let s = (if hasValidPattern s
                      then s\<lparr>m_notes :=
                             map (selectNote s shift sel_pos_start sel_pos_end
                                    sel_key_start sel_key_end)
                               (m_notes s)\<rparr>
                      else s)
             in removeSelection s)))"

text \<open>
  Committing a second time with the region of an earlier state: the commit resets the
  region, so the caller has to set it again before the same region can be committed.
\<close>

definition withRegionOf :: "PianoRoll \<Rightarrow> PianoRoll \<Rightarrow> PianoRoll" where
  "withRegionOf r s =
    s\<lparr>m_selectStartTick := m_selectStartTick r, m_selectedTick := m_selectedTick r,
      m_selectStartKey := m_selectStartKey r, m_selectedKeys := m_selectedKeys r\<rparr>"

section \<open>Pointer-down: the old-state snapshot and the moving boundary\<close>

text \<open>
  The loop of \<open>mousePressEvent\<close> that remembers every note's starting key, position and
  length and computes the bounding box of the selected notes.  \<open>m_moveBoundaryRight\<close> is
  left out: no modelled function reads it.
\<close>

definition rememberNote :: "Note \<Rightarrow> Note" where
  "rememberNote note = note\<lparr>oldKey := key note, oldPos := pos note, oldLength := length_t note\<rparr>"

fun boundingBox :: "bool \<Rightarrow> int \<times> int \<times> int \<Rightarrow> Note list \<Rightarrow> int \<times> int \<times> int" where
  "boundingBox first box [] = box"
| "boundingBox first (l, t, b) (note # ns) =
    (if selected note then
       (if first then boundingBox False (pos note, key note, key note) ns
        else boundingBox False (min (pos note) l, max (key note) t, min (key note) b) ns)
     else boundingBox first (l, t, b) ns)"

definition rememberNotes :: "PianoRoll \<Rightarrow> PianoRoll" where
  "rememberNotes s =
    (case boundingBox True (m_moveBoundaryLeft s, m_moveBoundaryTop s, m_moveBoundaryBottom s)
            (m_notes s) of
       (l, t, b) \<Rightarrow>
         s\<lparr>m_notes := map rememberNote (m_notes s),
           m_moveBoundaryLeft := l, m_moveBoundaryTop := t, m_moveBoundaryBottom := b\<rparr>)"

text \<open>
  The step after it: when the clicked note (index \<open>i\<close>) is not selected, the selection
  is replaced by that note and the box by its position and key.
\<close>

definition selectCurrentNote :: "PianoRoll \<Rightarrow> nat \<Rightarrow> PianoRoll" where
  "selectCurrentNote s i =
    (if \<not> selected (m_notes s ! i) then
       (let s = clearSelectedNotes s;
            cur = setSelected True (m_notes s ! i)
        in s\<lparr>m_notes := (m_notes s)[i := cur],
             m_moveBoundaryLeft := pos cur, m_moveBoundaryBottom := key cur,
             m_moveBoundaryTop := key cur\<rparr>)
     else s)"

section \<open>Pointer-down with the draw tool: creating a note\<close>

definition NOTE_EDIT_LINE_WIDTH :: int where
  "NOTE_EDIT_LINE_WIDTH = 3"

text \<open>The tick in which the user clicked.\<close>

definition pointer_tick :: "PianoRoll \<Rightarrow> int \<Rightarrow> int option" where
  "pointer_tick s x =
    (case int_div ((x - WHITE_KEY_WIDTH) * ticksPerTact s) (m_ppt s) of
       None \<Rightarrow> None
     | Some t \<Rightarrow> Some (t + m_currentPosition s))"

text \<open>The test whether the user clicked on an existing note or an edit line.\<close>

definition clicked :: "PianoRoll \<Rightarrow> bool \<Rightarrow> int \<Rightarrow> int \<Rightarrow> Note \<Rightarrow> bool" where
  "clicked s edit_note pos_ticks key_num note =
    (let len = length_t note;
         len = (if len < 0 then 4 else len)
     in pos_ticks \<ge> pos note \<and> len > 0 \<and>
        ((\<not> edit_note \<and> pos_ticks \<le> pos note + len \<and> key note = key_num) \<or>
         (edit_note \<and>
          pos_ticks \<le> pos note + cdiv (NOTE_EDIT_LINE_WIDTH * ticksPerTact s) (m_ppt s))))"

text \<open>
  The loop through the note vector from its last element down to its first; \<open>None\<close> is
  the iterator \<open>notes.begin()-1\<close>.
\<close>

fun scanNotes :: "(Note \<Rightarrow> bool) \<Rightarrow> Note list \<Rightarrow> nat \<Rightarrow> nat option" where
  "scanNotes hit ns 0 = None"
| "scanNotes hit ns (Suc i) = (if hit (ns ! i) then Some i else scanNotes hit ns i)"

text \<open>
  Modelled from the spec: the constructor \<open>Note( length, pos, key )\<close> followed by
  \<open>setSelected( true )\<close>, \<open>setPanning\<close> and \<open>setVolume\<close> (Note.h and Note.cpp, outside
  PianoRoll.cpp): the fields hold the values given, and the snapshot fields start
  equal to the current ones.
\<close>

definition makeNote :: "PianoRoll \<Rightarrow> int \<Rightarrow> int \<Rightarrow> int \<Rightarrow> Note" where
  "makeNote s len p k =
    \<lparr>pos = p, length_t = len, key = k, volume = m_lastNoteVolume s,
     panning = m_lastNotePanning s, selected = True, oldPos = p, oldLength = len, oldKey = k\<rparr>"

text \<open>
  Modelled from the spec: \<open>Pattern::addNote\<close> (Pattern.cpp, outside PianoRoll.cpp;
  section 4.1: it inserts the note, and the notes are kept in ascending order of
  position).
\<close>

definition addNote :: "Note \<Rightarrow> Note list \<Rightarrow> Note list" where
  "addNote note ns = insort_key pos note ns"

text \<open>The notes that follow the first one when a chord is selected (\<open>chord[1]\<close> onwards).\<close>

fun stampChord :: "PianoRoll \<Rightarrow> bool \<Rightarrow> int \<Rightarrow> int \<Rightarrow> int \<Rightarrow> int list \<Rightarrow> Note list \<Rightarrow> Note list" where
  "stampChord s arpeggio note_len key_num note_pos [] ns = ns"
| "stampChord s arpeggio note_len key_num note_pos (c # cs) ns =
    (let note_pos = (if arpeggio then note_pos + note_len else note_pos)
     in stampChord s arpeggio note_len key_num note_pos cs
          (addNote (makeNote s note_len note_pos (key_num + c)) ns))"

datatype PressResult =
  DivisionByZero
  | ClickedExisting nat
  | CreatedNote Note PianoRoll

text \<open>
  \<open>mousePressEvent\<close> for the left button with the draw tool and a valid pattern, inside
  the note area (\<open>y > PR_TOP_MARGIN\<close>, \<open>x > WHITE_KEY_WIDTH\<close>, above the note edit area
  and its resize bar, not in detuning mode), up to the end of the block that creates the
  new note(s).  \<open>shiftMod\<close> is the shift modifier of the
  event.  The result names the note under the pointer when there is one, and otherwise
  the note created and the state after it.
\<close>

definition mousePressEvent_draw :: "PianoRoll \<Rightarrow> int \<Rightarrow> int \<Rightarrow> bool \<Rightarrow> PressResult" where
  "mousePressEvent_draw s x y shiftMod =
    (let key_num = getKey s y in
     case pointer_tick s x of
       None \<Rightarrow> DivisionByZero
     | Some pos_ticks \<Rightarrow>
        (case scanNotes (clicked s False pos_ticks key_num) (m_notes s) (length (m_notes s)) of
           Some i \<Rightarrow> ClickedExisting i
         | None \<Rightarrow>
            (let s = clearSelectedNotes s in
             case quantization s of
               None \<Rightarrow> DivisionByZero
             | Some q \<Rightarrow>
                (case newNoteLen s of
                   None \<Rightarrow> DivisionByZero
                 | Some note_len \<Rightarrow>
                    (let note_pos = pos_ticks - cdiv q 2;
                         new_note = makeNote s note_len note_pos key_num;
                         ns = addNote new_note (m_notes s);
                         chord = currentChord s;
                         ns = (if \<not> isEmpty chord
                               then stampChord s shiftMod note_len key_num note_pos
                                      (tl (semiTones chord)) ns
                               else ns)
                     in CreatedNote new_note (s\<lparr>m_notes := ns\<rparr>))))))"

text \<open>The note created, as \<open>mousePressEvent\<close> hands it to \<open>addNote\<close>.\<close>

definition created :: "PressResult \<Rightarrow> Note option" where
  "created r = (case r of CreatedNote note s \<Rightarrow> Some note | _ \<Rightarrow> None)"

definition state_after :: "PressResult \<Rightarrow> PianoRoll option" where
  "state_after r = (case r of CreatedNote note s \<Rightarrow> Some s | _ \<Rightarrow> None)"

section \<open>Keyboard shifts\<close>

text \<open>
  \<open>shiftSemiTone\<close> and \<open>shiftPos\<close> are called from \<open>keyPressEvent\<close> whether or not a
  pattern is present, and read \<open>m_pattern->notes()\<close> without a test: with no pattern they
  dereference a null pointer, which is the result \<open>None\<close>.  The flag \<open>hasValidPattern\<close>
  stands for \<open>m_pattern != NULL\<close>.
\<close>

definition shiftSemiTone :: "PianoRoll \<Rightarrow> int \<Rightarrow> PianoRoll option" where
  "shiftSemiTone s amount =
    (if \<not> hasValidPattern s then None
     else
       (let useAllNotes = \<not> isSelection s
        in Some (s\<lparr>m_notes :=
             map (\<lambda>note. if useAllNotes \<or> selected note then setKey (key note + amount) note
                          else note)
               (m_notes s)\<rparr>)))"

text \<open>
  The loop of \<open>shiftPos\<close>; it carries \<open>first\<close>, the amount (clamped when the first
  affected note is met) and \<open>m_moveBoundaryLeft\<close>.
\<close>

fun shiftPosLoop :: "bool \<Rightarrow> bool \<Rightarrow> int \<Rightarrow> int \<Rightarrow> Note list \<Rightarrow> Note list \<times> int" where
  "shiftPosLoop useAllNotes first amount left [] = ([], left)"
| "shiftPosLoop useAllNotes first amount left (note # ns) =
    (if selected note \<or> (useAllNotes \<and> length_t note > 0) then
       (let left = (if first then pos note else left);
            amount = (if first \<and> left + amount < 0 then amount + (0 - (amount + left))
                      else amount)
        in case shiftPosLoop useAllNotes False amount left ns of
             (ns', left') \<Rightarrow> (setPos (pos note + amount) note # ns', left'))
     else
       (case shiftPosLoop useAllNotes first amount left ns of
          (ns', left') \<Rightarrow> (note # ns', left')))"

definition shiftPos :: "PianoRoll \<Rightarrow> int \<Rightarrow> PianoRoll option" where
  "shiftPos s amount =
    (if \<not> hasValidPattern s then None
     else
       (let useAllNotes = \<not> isSelection s
        in case shiftPosLoop useAllNotes True amount (m_moveBoundaryLeft s) (m_notes s) of
             (ns, left) \<Rightarrow> Some (s\<lparr>m_notes := ns, m_moveBoundaryLeft := left\<rparr>)))"

section \<open>Marking semitones\<close>

datatype SemiToneMarkerAction =
  stmaUnmarkAll | stmaMarkCurrentSemiTone | stmaMarkCurrentScale | stmaMarkCurrentChord
  | stmaOther

text \<open>
  The block shared by \<open>stmaMarkCurrentScale\<close> and \<open>stmaMarkCurrentChord\<close>, for the chord
  table entry \<open>chord\<close> and the key under the menu; \<open>i\<close> runs from \<open>first\<close> to \<open>last\<close>
  inclusive.
\<close>

definition markChord :: "PianoRoll \<Rightarrow> int \<Rightarrow> Chord \<Rightarrow> int list \<Rightarrow> int list" where
  "markChord s k chord marks =
    (if isEmpty chord then marks
     else
       (let marks = (if isScale chord then [] else marks);
            first = (if isScale chord then 0 else k);
            lst = (if isScale chord then NumKeys s else k + last_interval chord);
            cap = (if isScale chord \<or> last_interval chord = 0 then KeysPerOctave
                   else last_interval chord)
        in marks @ filter (\<lambda>i. hasSemiTone chord (crem (i + cap - crem k cap) cap)) [first..lst]))"

definition markSemiTone :: "PianoRoll \<Rightarrow> SemiToneMarkerAction \<Rightarrow> int \<Rightarrow> PianoRoll" where
  "markSemiTone s i y =
    (let k = getKey s y;
         marks = m_markedSemiTones s;
         marks =
           (case i of
              stmaUnmarkAll \<Rightarrow> []
            | stmaMarkCurrentSemiTone \<Rightarrow>
                (if k \<in> set marks then remove1 k marks else marks @ [k])
            | stmaMarkCurrentScale \<Rightarrow> markChord s k (currentScale s) marks
            | stmaMarkCurrentChord \<Rightarrow> markChord s k (currentChord s) marks
            | stmaOther \<Rightarrow> marks)
     in s\<lparr>m_markedSemiTones := remdups_adj (rev (sort marks))\<rparr>)"

section \<open>Paste\<close>

text \<open>
  Modelled from the spec: \<open>Note::restoreState\<close> (section 6: the clipboard yields the note
  list with positions relative to a reference tick); \<open>clipboard\<close> holds the notes as
  \<open>restoreState\<close> returns them.
\<close>

definition pasteNote :: "PianoRoll \<Rightarrow> Note \<Rightarrow> Note" where
  "pasteNote s cur_note = setSelected True (setPos (pos cur_note + timeLinePos s) cur_note)"

definition pasteNotes :: "PianoRoll \<Rightarrow> PianoRoll" where
  "pasteNotes s =
    (if \<not> hasValidPattern s then s
     else
       (case clipboard s of
          None \<Rightarrow> s
        | Some stored \<Rightarrow>
           (let s = clearSelectedNotes s
            in s\<lparr>m_notes := foldl (\<lambda>ns cur_note. addNote (pasteNote s cur_note) ns)
                              (m_notes s) stored\<rparr>)))"

section \<open>The specification's snap\<close>

text \<open>
  The specification's words for the quantizer: \<open>snap(tick, granularity)\<close> is
  \<open>floor(tick / granularity) * granularity\<close>.  (\<open>div\<close> on \<open>int\<close> rounds towards minus
  infinity.)
\<close>

definition snap_spec :: "int \<Rightarrow> int \<Rightarrow> int" where
  "snap_spec tick granularity = (tick div granularity) * granularity"

section \<open>Predicates used by the statements\<close>

text \<open>
  A note is toggled by an additive commit when the commit does not return early, a
  pattern is present, the note's length is not zero and the note lies in the rectangle.
\<close>

definition toggles :: "PianoRoll \<Rightarrow> Note \<Rightarrow> bool" where
  "toggles s note =
    (case selectionRect s of
       (sel_pos_start, sel_pos_end, sel_key_start, sel_key_end) \<Rightarrow>
         \<not> noSelection s \<and> hasValidPattern s \<and> length_t note \<noteq> 0 \<and>
         inSelection s sel_pos_start sel_pos_end sel_key_start sel_key_end note)"

text \<open>The boundary conditions on a note: its position and its key.\<close>

definition in_bounds :: "PianoRoll \<Rightarrow> Note \<Rightarrow> bool" where
  "in_bounds s note = (0 \<le> pos note \<and> 0 \<le> key note \<and> key note \<le> NumKeys s)"

definition selection_in_bounds :: "PianoRoll \<Rightarrow> bool" where
  "selection_in_bounds s = list_all (\<lambda>note. \<not> selected note \<or> in_bounds s note) (m_notes s)"

text \<open>A drag update that takes the branch which moves the selected notes.\<close>

definition is_move_update :: "PianoRoll \<Rightarrow> int \<times> int \<times> bool \<times> bool \<times> int \<times> int \<Rightarrow> bool" where
  "is_move_update s u = (case u of (x, y, alt, shift, cp, sk) \<Rightarrow> moving s shift)"

text \<open>The values of the loop variables of \<open>dragNotes\<close> before the first note.\<close>

definition dragStart :: "PianoRoll \<Rightarrow> DragVars" where
  "dragStart s = \<lparr>shift_offset = 0, shift_ref_pos = - 1, lenOfNewNotes = m_lenOfNewNotes s\<rparr>"

text \<open>
  The moving boundary is the bounding box of the selected notes' snapshot: each of its
  three values is that of some selected note.
\<close>

definition box_of_selection :: "PianoRoll \<Rightarrow> bool" where
  "box_of_selection s =
    (list_ex (\<lambda>note. selected note \<and> oldPos note = m_moveBoundaryLeft s) (m_notes s) \<and>
     list_ex (\<lambda>note. selected note \<and> oldKey note = m_moveBoundaryTop s) (m_notes s) \<and>
     list_ex (\<lambda>note. selected note \<and> oldKey note = m_moveBoundaryBottom s) (m_notes s))"

text \<open>
  The moving boundary bounds the snapshot of every selected note: no selected note lies
  left of it, below its bottom or above its top.
\<close>

definition box_bounds_selection :: "PianoRoll \<Rightarrow> bool" where
  "box_bounds_selection s =
    list_all (\<lambda>note. \<not> selected note \<or>
                (m_moveBoundaryLeft s \<le> oldPos note \<and>
                 m_moveBoundaryBottom s \<le> oldKey note \<and>
                 oldKey note \<le> m_moveBoundaryTop s))
      (m_notes s)"

text \<open>The offsets take a note neither below tick 0 nor outside the keys \<open>0..NumKeys\<close>.\<close>

definition not_clamped :: "PianoRoll \<Rightarrow> int \<Rightarrow> int \<Rightarrow> Note \<Rightarrow> bool" where
  "not_clamped s off_ticks off_key note =
    (0 \<le> oldPos note + off_ticks \<and> 0 \<le> oldKey note + off_key \<and>
     oldKey note + off_key \<le> NumKeys s)"

text \<open>
  Shift-held resize of the note \<open>a\<close> by \<open>off_ticks\<close>, as the loop means it (its comment:
  the following notes are shifted to preserve the melody; its test on \<open>shift_ref_pos\<close>: a
  note at the position of the resized note is not a following note).  The new length of
  \<open>a\<close>, and the position of a note that comes after \<open>a\<close> in the note vector: nothing is
  shifted when the new length would not be positive; a note at the position of \<open>a\<close> is
  put at its snapshot position; every other one is put at its snapshot position plus the
  offset.
\<close>

definition resize_length :: "Note \<Rightarrow> int \<Rightarrow> int" where
  "resize_length a off_ticks =
    (if oldLength a + off_ticks \<le> 0 then 1 else oldLength a + off_ticks)"

definition shifted_pos :: "Note \<Rightarrow> int \<Rightarrow> Note \<Rightarrow> int" where
  "shifted_pos a off_ticks note =
    (if oldLength a + off_ticks \<le> 0 then oldPos note
     else if pos note = pos a then oldPos note
     else oldPos note + off_ticks)"

text \<open>
  The test of the loop of \<open>shiftPos\<close> that a note is moved, and the amount the loop
  moves by: the amount given, clamped against the first note that passes the test.
\<close>

definition shiftAffected :: "bool \<Rightarrow> Note \<Rightarrow> bool" where
  "shiftAffected useAllNotes note = (selected note \<or> (useAllNotes \<and> length_t note > 0))"

definition shiftAmount :: "bool \<Rightarrow> int \<Rightarrow> Note list \<Rightarrow> int" where
  "shiftAmount useAllNotes amount ns =
    (case find (shiftAffected useAllNotes) ns of
       None \<Rightarrow> amount
     | Some note \<Rightarrow> (if pos note + amount < 0 then - pos note else amount))"

section \<open>States for worked examples\<close>

definition demo :: PianoRoll where
  "demo =
    \<lparr>m_notes = [], hasValidPattern = True, NumOctaves = 10,
     DefaultTicksPerTact = 192, ticksPerTact = 192, height = 480, m_notesEditHeight = 100,
     m_action = ActionMoveNote, m_ppt = 192, m_currentPosition = 0, m_startKey = 48,
     m_moveStartX = 100, m_moveStartY = 100, m_mouseDownTick = 0, m_mouseDownKey = 48,
     m_moveBoundaryLeft = 0, m_moveBoundaryTop = 0, m_moveBoundaryBottom = 0,
     m_startedWithShift = False, m_lenOfNewNotes = 48,
     m_quantizeModel = \<lparr>cb_value = 1, cb_denominator = 12\<rparr>,
     m_noteLenModel = \<lparr>cb_value = 0, cb_denominator = 0\<rparr>,
     m_selectStartTick = 0, m_selectedTick = 0, m_selectStartKey = 0, m_selectedKeys = 0,
     m_markedSemiTones = [], m_lastNoteVolume = 100, m_lastNotePanning = 0,
     currentChord = \<lparr>isScale = False, semiTones = []\<rparr>,
     currentScale = \<lparr>isScale = True, semiTones = [0, 2, 4, 5, 7, 9, 11]\<rparr>,
     timeLinePos = 0, clipboard = None\<rparr>"

definition mkNote :: "int \<Rightarrow> int \<Rightarrow> int \<Rightarrow> bool \<Rightarrow> Note" where
  "mkNote p l k sel =
    \<lparr>pos = p, length_t = l, key = k, volume = 100, panning = 0, selected = sel,
     oldPos = p, oldLength = l, oldKey = k\<rparr>"

definition c1_state :: PianoRoll where
  "c1_state =
    demo\<lparr>m_notes := [mkNote 96 96 60 True, mkNote 146 100 62 True],
      m_moveBoundaryLeft := 96, m_moveBoundaryTop := 62, m_moveBoundaryBottom := 60\<rparr>"

definition c2_state :: PianoRoll where
  "c2_state =
    demo\<lparr>m_notes := [mkNote 10 96 2 True, mkNote 30 100 118 True, mkNote 5 48 60 False],
      m_moveBoundaryLeft := 10, m_moveBoundaryTop := 118, m_moveBoundaryBottom := 2\<rparr>"

definition c3_state :: PianoRoll where
  "c3_state =
    demo\<lparr>m_notes := [mkNote 96 96 60 True, mkNote 146 100 62 True],
      m_moveBoundaryLeft := 96, m_moveBoundaryTop := 62, m_moveBoundaryBottom := 60\<rparr>"

definition top_state :: PianoRoll where
  "top_state =
    demo\<lparr>m_notes := [mkNote 10 96 2 True, mkNote 30 100 118 True, mkNote 5 48 60 False],
      m_moveBoundaryLeft := 10, m_moveBoundaryTop := 118, m_moveBoundaryBottom := 2\<rparr>"

definition c5_state :: PianoRoll where
  "c5_state =
    demo\<lparr>m_notes := [mkNote 0 48 60 True, mkNote 16 48 64 False, mkNote 64 48 60 False],
      m_selectStartTick := 10, m_selectedTick := 30, m_selectStartKey := 58,
      m_selectedKeys := 10\<rparr>"

definition c10_state :: PianoRoll where
  "c10_state = demo\<lparr>m_notes := [mkNote 0 96 60 True, mkNote 50 100 62 False]\<rparr>"

definition c2_updates :: "(int \<times> int \<times> bool \<times> bool \<times> int \<times> int) list" where
  "c2_updates = [(0, 400, True, False, 10, 50), (300, 0, False, True, 10, 50)]"

definition c4_state :: PianoRoll where
  "c4_state =
    demo\<lparr>m_action := ActionResizeNote,
      m_notes := [mkNote 0 48 55 False, mkNote 16 48 60 True, mkNote 16 48 64 False,
                  mkNote 64 48 60 False]\<rparr>"

definition c4_cex :: PianoRoll where
  "c4_cex =
    demo\<lparr>m_action := ActionResizeNote,
      m_notes := [mkNote 16 48 60 True, mkNote 16 48 64 False, mkNote 64 48 60 False]\<rparr>"

definition c6_state :: PianoRoll where
  "c6_state = demo\<lparr>m_notes := [mkNote 96 48 60 False]\<rparr>"

definition c7_state :: PianoRoll where
  "c7_state = demo\<lparr>m_notes := [mkNote 10 48 60 False, mkNote 20 48 64 True]\<rparr>"

definition c9_state :: PianoRoll where
  "c9_state =
    demo\<lparr>m_notes := [mkNote 10 48 60 False, mkNote 20 48 64 True],
      clipboard := Some [mkNote 0 48 60 False, mkNote 5 48 64 False], timeLinePos := 12\<rparr>"

section \<open>Arithmetic lemmas\<close>

lemma cdiv_nonneg: "0 \<le> a \<Longrightarrow> 0 < b \<Longrightarrow> cdiv a b = a div b"
  by (cases "a = 0") (simp_all add: cdiv_def)

lemma cdiv_neg: "a < 0 \<Longrightarrow> 0 < b \<Longrightarrow> cdiv a b = - ((- a) div b)"
  by (simp add: cdiv_def)

section \<open>Quantized dragging (C1)\<close>

lemma quantize_offset_eq:
  "quantization s = Some q \<Longrightarrow> q \<noteq> 0 \<Longrightarrow> quantize_offset s t = Some (cdiv t q * q)"
  by (simp add: quantize_offset_def int_div_def)

text \<open>
  For an offset that is not negative the quantization step is the specification's snap;
  for a negative offset it is the mirror image of the snap of the distance, that is, it
  rounds towards zero.
\<close>

lemma quantize_offset_nonneg:
  "quantization s = Some q \<Longrightarrow> 0 < q \<Longrightarrow> 0 \<le> t \<Longrightarrow>
    quantize_offset s t = Some (snap_spec t q)"
  by (simp add: quantize_offset_eq cdiv_nonneg snap_spec_def)

lemma quantize_offset_neg:
  "quantization s = Some q \<Longrightarrow> 0 < q \<Longrightarrow> t < 0 \<Longrightarrow>
    quantize_offset s t = Some (- snap_spec (- t) q)"
  by (simp add: quantize_offset_eq cdiv_neg snap_spec_def)

text \<open>
  For a negative offset off the grid the code's result lies one step above the
  specification's snap.
\<close>

lemma quantize_offset_neg_off_grid:
  assumes "quantization s = Some q" and "0 < q" and "t < 0" and "t mod q \<noteq> 0"
  shows "quantize_offset s t = Some (snap_spec t q + q)"
proof -
  have "(- t) div q = - (t div q) - 1"
    using assms(2,4) by (simp add: zdiv_zminus1_eq_if)
  then have "cdiv t q = t div q + 1"
    using assms(2,3) by (simp add: cdiv_neg)
  then show ?thesis
    using assms(1,2) by (simp add: quantize_offset_eq snap_spec_def algebra_simps)
qed

text \<open>
  The scenario of the specification: two selected notes at ticks 0 and 50, offset +10,
  granularity 16, no free modifier.  The offset snaps to 0 and no position changes.
\<close>

lemma dragNotes_spec_scenario:
  "map_option (\<lambda>s. map pos (m_notes s))
     (dragNotes (demo\<lparr>m_notes := [mkNote 0 96 60 True, mkNote 50 100 62 True],
         m_moveBoundaryLeft := 0, m_moveBoundaryTop := 62, m_moveBoundaryBottom := 60\<rparr>)
        110 100 False False) = Some [0, 50]"
  by (simp add: dragNotes_def drag_raw_offsets_def demo_def int_div_def cdiv_def
      quantize_offset_def quantization_def getKey_def keyAreaBottom_def KEY_LINE_HEIGHT_def
      PR_BOTTOM_MARGIN_def KeysPerOctave_def
      clamp_offsets_def moving_def dragNote_def mkNote_def NumKeys_def)

text \<open>
  C1.  The claim: without the free modifier, \<open>dragNotes\<close> snaps every tick offset \<open>t\<close> to
  \<open>floor(t / g) * g\<close>, rounding towards minus infinity also for negative \<open>t\<close>.  The code
  divides two \<open>int\<close>s before it calls \<open>floor\<close>, so the quotient is truncated towards
  zero.  At the pointer position 10 pixels left of the start (offset \<open>-10\<close> ticks,
  granularity 16) the code's offset is 0 and the two selected notes stay at ticks 96 and
  146, where the claimed snap is \<open>-16\<close>.
\<close>

theorem dragNotes_quantize_truncates:
  "drag_raw_offsets c1_state 90 100 False = Some (0, 0)
   \<and> snap_spec (- 10) 16 = - 16
   \<and> map_option (\<lambda>s. map pos (m_notes s)) (dragNotes c1_state 90 100 False False)
       = Some [96, 146]"
  by (simp add: dragNotes_def drag_raw_offsets_def c1_state_def demo_def int_div_def cdiv_def
      quantize_offset_def quantization_def getKey_def keyAreaBottom_def KEY_LINE_HEIGHT_def
      PR_BOTTOM_MARGIN_def KeysPerOctave_def snap_spec_def
      clamp_offsets_def moving_def dragNote_def mkNote_def NumKeys_def)

section \<open>The loop of dragNotes\<close>

lemma dragLoop_Cons:
  "dragLoop f v (n # ns) =
     (fst (f v n) # fst (dragLoop f (snd (f v n)) ns), snd (dragLoop f (snd (f v n)) ns))"
  by (simp split: prod.splits)

lemma dragLoop_length: "length (fst (dragLoop f v ns)) = length ns"
  by (induction ns arbitrary: v) (simp_all add: dragLoop_Cons del: dragLoop.simps(2))

lemma dragLoop_all:
  assumes "\<And>v n. P n \<Longrightarrow> Q (fst (f v n))"
    and "list_all P ns"
  shows "list_all Q (fst (dragLoop f v ns))"
  using assms(2)
  by (induction ns arbitrary: v) (simp_all add: dragLoop_Cons assms(1) del: dragLoop.simps(2))

lemma dragNotes_eq:
  "dragNotes s x y alt shift =
    (case drag_raw_offsets s x y alt of
       None \<Rightarrow> None
     | Some offs \<Rightarrow>
         Some (s\<lparr>m_notes :=
                   fst (dragLoop (dragNote s shift (fst (clamp_offsets s shift offs))
                          (snd (clamp_offsets s shift offs))) (dragStart s) (m_notes s)),
                 m_lenOfNewNotes :=
                   lenOfNewNotes (snd (dragLoop (dragNote s shift (fst (clamp_offsets s shift offs))
                          (snd (clamp_offsets s shift offs))) (dragStart s) (m_notes s)))\<rparr>))"
  by (simp add: dragNotes_def dragStart_def split: option.splits prod.splits)

lemma dragNotes_notes:
  assumes "dragNotes s x y alt shift = Some s'"
  obtains ot ok where
    "m_notes s' = fst (dragLoop (dragNote s shift ot ok) (dragStart s) (m_notes s))"
  using assms by (auto simp add: dragNotes_eq split: option.splits)

lemma dragNotes_frame:
  assumes "dragNotes s x y alt shift = Some s'"
  shows "m_action s' = m_action s" and "m_startedWithShift s' = m_startedWithShift s"
    and "NumKeys s' = NumKeys s"
  using assms by (auto simp add: dragNotes_eq NumKeys_def split: option.splits)

text \<open>
  \<open>dragNotes\<close> returns whenever the pixels-per-tact value is not zero and, for a quantized
  update, the quantization is defined and not zero.
\<close>

lemma dragNotes_returns:
  assumes "m_ppt s \<noteq> 0" and "alt \<or> (\<exists>q. quantization s = Some q \<and> q \<noteq> 0)"
  shows "\<exists>s'. dragNotes s x y alt shift = Some s'"
  using assms
  by (auto simp add: dragNotes_eq drag_raw_offsets_def quantize_offset_def int_div_def Let_def
      split: option.splits)

lemma dragNote_selected: "selected (fst (dragNote s shift ot ok v n)) = selected n"
  by (simp add: dragNote_def Let_def)

section \<open>Clamp safety of moving (C2)\<close>

lemma dragNote_moving_bounds:
  "moving s shift \<Longrightarrow> 0 \<le> NumKeys s \<Longrightarrow> selected n \<Longrightarrow>
     in_bounds s (fst (dragNote s shift ot ok v n))"
  by (auto simp add: dragNote_def Let_def in_bounds_def moving_def)

lemma dragNote_quick_resize:
  "m_action s = ActionMoveNote \<Longrightarrow> \<not> moving s shift \<Longrightarrow>
     pos (fst (dragNote s shift ot ok v n)) = pos n \<and>
     key (fst (dragNote s shift ot ok v n)) = key n"
  by (auto simp add: dragNote_def Let_def moving_def)

lemma in_bounds_cong: "NumKeys s' = NumKeys s \<Longrightarrow> in_bounds s' n = in_bounds s n"
  by (simp add: in_bounds_def)

text \<open>
  One update that moves: every selected note is within the bounds afterwards, whatever
  the state before.
\<close>

lemma dragNotes_move_bounds:
  assumes "dragNotes s x y alt shift = Some s'" and "moving s shift" and "0 \<le> NumKeys s"
  shows "selection_in_bounds s'"
proof -
  from assms(1) obtain ot ok where
    ns: "m_notes s' = fst (dragLoop (dragNote s shift ot ok) (dragStart s) (m_notes s))"
    by (rule dragNotes_notes)
  have nk: "NumKeys s' = NumKeys s"
    by (rule dragNotes_frame(3) [OF assms(1)])
  have "list_all (\<lambda>note. \<not> selected note \<or> in_bounds s note)
          (fst (dragLoop (dragNote s shift ot ok) (dragStart s) (m_notes s)))"
  proof (rule dragLoop_all [where P = "\<lambda>n. True"])
    fix v' n
    show "\<not> selected (fst (dragNote s shift ot ok v' n))
        \<or> in_bounds s (fst (dragNote s shift ot ok v' n))"
      using dragNote_moving_bounds [OF assms(2,3), of n ot ok v']
      by (simp add: dragNote_selected)
  next
    show "list_all (\<lambda>n. True) (m_notes s)" by (simp add: list_all_iff)
  qed
  then show ?thesis
    by (simp add: selection_in_bounds_def ns in_bounds_cong [OF nk])
qed

text \<open>
  One update in the moving action that resizes instead (shift pressed after the gesture
  began): positions and keys stay as they are, so the bounds are preserved.
\<close>

lemma dragNotes_quick_resize_bounds:
  assumes "dragNotes s x y alt shift = Some s'" and "m_action s = ActionMoveNote"
    and "\<not> moving s shift" and "selection_in_bounds s"
  shows "selection_in_bounds s'"
proof -
  from assms(1) obtain ot ok where
    ns: "m_notes s' = fst (dragLoop (dragNote s shift ot ok) (dragStart s) (m_notes s))"
    by (rule dragNotes_notes)
  have nk: "NumKeys s' = NumKeys s"
    by (rule dragNotes_frame(3) [OF assms(1)])
  have "list_all (\<lambda>note. \<not> selected note \<or> in_bounds s note)
          (fst (dragLoop (dragNote s shift ot ok) (dragStart s) (m_notes s)))"
  proof (rule dragLoop_all [where P = "\<lambda>note. \<not> selected note \<or> in_bounds s note"])
    fix v' n
    assume "\<not> selected n \<or> in_bounds s n"
    then show "\<not> selected (fst (dragNote s shift ot ok v' n))
        \<or> in_bounds s (fst (dragNote s shift ot ok v' n))"
      using dragNote_quick_resize [OF assms(2,3), of ot ok v' n]
      by (simp add: dragNote_selected in_bounds_def)
  next
    show "list_all (\<lambda>note. \<not> selected note \<or> in_bounds s note) (m_notes s)"
      using assms(4) by (simp add: selection_in_bounds_def)
  qed
  then show ?thesis
    by (simp add: selection_in_bounds_def ns in_bounds_cong [OF nk])
qed

lemma moving_cong:
  "m_action s' = m_action s \<Longrightarrow> m_startedWithShift s' = m_startedWithShift s \<Longrightarrow>
    moving s' shift = moving s shift"
  by (simp add: moving_def)

lemma scrolled_frame:
  "m_action (scrolled s cp sk) = m_action s"
  "m_startedWithShift (scrolled s cp sk) = m_startedWithShift s"
  "NumKeys (scrolled s cp sk) = NumKeys s"
  "m_notes (scrolled s cp sk) = m_notes s"
  by (simp_all add: scrolled_def NumKeys_def)

lemma selection_in_bounds_scrolled:
  "selection_in_bounds (scrolled s cp sk) = selection_in_bounds s"
  by (simp add: selection_in_bounds_def scrolled_frame in_bounds_cong [OF scrolled_frame(3)])

text \<open>
  C2.  In the moving action, after any sequence of drag updates (quantized or free, with
  any scrolling in between) that returns, every selected note has a position of at least
  0 and a key in \<open>[0, NumKeys]\<close>, provided the selected notes were within these bounds
  before the sequence or at least one update of the sequence moves (is not a quick
  resize).  Every single update maintains the bounds: the statement holds for sequences
  of length one.
\<close>

theorem dragNotes_clamp_safety:
  assumes "m_action s = ActionMoveNote" and "0 \<le> NumKeys s"
    and "dragSeq s us = Some s'"
    and "selection_in_bounds s \<or> list_ex (is_move_update s) us"
  shows "selection_in_bounds s'"
  using assms
proof (induction us arbitrary: s)
  case Nil
  then show ?case by simp
next
  case (Cons u us)
  obtain x y alt shift cp sk where u: "u = (x, y, alt, shift, cp, sk)"
    by (cases u) auto
  define s0 where "s0 = scrolled s cp sk"
  from Cons.prems(3) u obtain s1 where
    s1: "dragNotes s0 x y alt shift = Some s1" and rest: "dragSeq s1 us = Some s'"
    by (auto simp add: s0_def split: option.splits)
  have a0: "m_action s0 = ActionMoveNote" and k0: "0 \<le> NumKeys s0"
    using Cons.prems(1,2) by (simp_all add: s0_def scrolled_frame)
  have m0: "moving s0 sh = moving s sh" for sh
    by (simp add: s0_def scrolled_frame moving_def)
  note fr = dragNotes_frame [OF s1]
  have a1: "m_action s1 = ActionMoveNote" using fr a0 by simp
  have k1: "0 \<le> NumKeys s1" using fr k0 by simp
  have mv: "is_move_update s1 = is_move_update s"
    by (rule ext)
       (simp add: is_move_update_def moving_cong [OF fr(1,2)] m0 split: prod.splits)
  have "selection_in_bounds s1 \<or> list_ex (is_move_update s1) us"
  proof (cases "moving s shift")
    case True
    then show ?thesis
      using dragNotes_move_bounds [OF s1 _ k0] m0 by simp
  next
    case False
    show ?thesis
    proof (cases "selection_in_bounds s")
      case True
      then have "selection_in_bounds s0"
        by (simp add: s0_def selection_in_bounds_scrolled)
      then show ?thesis
        using dragNotes_quick_resize_bounds [OF s1 a0] False m0 by simp
    next
      case nb: False
      with Cons.prems(4) have "list_ex (is_move_update s) (u # us)" by simp
      with False u have "list_ex (is_move_update s) us"
        by (simp add: is_move_update_def)
      then show ?thesis by (simp add: mv)
    qed
  qed
  from Cons.IH [OF a1 k1 rest this] show ?case .
qed

text \<open>
  A run of two updates, with the view scrolled by 10 ticks and 2 keys since pointer-down,
  from a state whose selected notes sit at ticks 10 and 30 and keys 2 and 118: a free
  move 90 ticks left and 22 keys down, then a quick resize.
\<close>

lemma c2_run:
  "map_option (\<lambda>s. map (\<lambda>n. (pos n, key n)) (m_notes s)) (dragSeq c2_state c2_updates)
     = Some [(0, 0), (20, 116), (5, 60)]"
  by (simp add: c2_updates_def scrolled_def dragNotes_def drag_raw_offsets_def c2_state_def
      demo_def int_div_def cdiv_def quantize_offset_def quantization_def getKey_def
      keyAreaBottom_def KEY_LINE_HEIGHT_def PR_BOTTOM_MARGIN_def KeysPerOctave_def
      clamp_offsets_def moving_def dragNote_def mkNote_def NumKeys_def)

theorem dragNotes_clamp_safety_witness:
  "map_option selection_in_bounds (dragSeq c2_state c2_updates) = Some True
   \<and> map_option (\<lambda>s. map (\<lambda>n. (pos n, key n)) (m_notes s)) (dragSeq c2_state c2_updates)
       = Some [(0, 0), (20, 116), (5, 60)]"
proof -
  from c2_run obtain s' where e: "dragSeq c2_state c2_updates = Some s'"
    by (cases "dragSeq c2_state c2_updates") auto
  have a: "m_action c2_state = ActionMoveNote"
    by (simp add: c2_state_def demo_def)
  have k: "0 \<le> NumKeys c2_state"
    by (simp add: c2_state_def demo_def NumKeys_def KeysPerOctave_def)
  have m: "selection_in_bounds c2_state \<or> list_ex (is_move_update c2_state) c2_updates"
    by (simp add: c2_updates_def is_move_update_def moving_def c2_state_def demo_def)
  have "selection_in_bounds s'"
    by (rule dragNotes_clamp_safety [OF a k e m])
  with e c2_run show ?thesis by simp
qed

section \<open>Group shape under moving (C3)\<close>

lemma dragLoop_nth:
  "i < length ns \<Longrightarrow> \<exists>v. fst (dragLoop f v0 ns) ! i = fst (f v (ns ! i))"
proof (induction ns arbitrary: i v0)
  case Nil
  then show ?case by simp
next
  case (Cons n ns)
  show ?case
  proof (cases i)
    case 0
    then show ?thesis by (auto simp add: dragLoop_Cons simp del: dragLoop.simps(2))
  next
    case (Suc j)
    with Cons.prems have "j < length ns" by simp
    from Cons.IH [OF this, of "snd (f v0 n)"] Suc show ?thesis
      by (simp add: dragLoop_Cons del: dragLoop.simps(2))
  qed
qed

lemma dragNote_moving:
  "moving s shift \<Longrightarrow> selected n \<Longrightarrow>
     fst (dragNote s shift ot ok v n) =
       n\<lparr>pos := max 0 (oldPos n + ot), key := min (max 0 (oldKey n + ok)) (NumKeys s)\<rparr>"
  by (auto simp add: dragNote_def Let_def moving_def)

lemma clamp_offsets_id:
  "0 \<le> m_moveBoundaryLeft s + ot \<Longrightarrow> m_moveBoundaryTop s + ok \<le> NumKeys s \<Longrightarrow>
   0 \<le> m_moveBoundaryBottom s + ok \<Longrightarrow> clamp_offsets s shift (ot, ok) = (ot, ok)"
  by (simp add: clamp_offsets_def)

lemma box_not_clamped:
  assumes "box_of_selection s"
    and "list_all (\<lambda>note. \<not> selected note \<or> not_clamped s ot ok note) (m_notes s)"
  shows "0 \<le> m_moveBoundaryLeft s + ot" and "m_moveBoundaryTop s + ok \<le> NumKeys s"
    and "0 \<le> m_moveBoundaryBottom s + ok"
  using assms by (auto simp add: box_of_selection_def list_ex_iff list_all_iff not_clamped_def)

text \<open>
  The pointer-down loop establishes what the statements below assume: it sets every
  snapshot field to the current value, the boundary it computes bounds every selected
  note, and when a note is selected each value of the boundary is that of a selected note.
\<close>

lemma boundingBox_rest:
  "boundingBox False (l, t, b) ns = (l', t', b') \<Longrightarrow>
    (l' = l \<or> list_ex (\<lambda>n. selected n \<and> pos n = l') ns) \<and>
    (t' = t \<or> list_ex (\<lambda>n. selected n \<and> key n = t') ns) \<and>
    (b' = b \<or> list_ex (\<lambda>n. selected n \<and> key n = b') ns)"
proof (induction ns arbitrary: l t b)
  case Nil
  then show ?case by simp
next
  case (Cons n ns)
  show ?case
  proof (cases "selected n")
    case True
    with Cons.prems have
      "boundingBox False (min (pos n) l, max (key n) t, min (key n) b) ns = (l', t', b')"
      by simp
    from Cons.IH [OF this] True show ?thesis
      by (auto simp add: min_def max_def split: if_splits)
  next
    case False
    with Cons.prems have "boundingBox False (l, t, b) ns = (l', t', b')" by simp
    from Cons.IH [OF this] show ?thesis by auto
  qed
qed

lemma boundingBox_first:
  "list_ex selected ns \<Longrightarrow> boundingBox True (l, t, b) ns = (l', t', b') \<Longrightarrow>
    list_ex (\<lambda>n. selected n \<and> pos n = l') ns \<and>
    list_ex (\<lambda>n. selected n \<and> key n = t') ns \<and>
    list_ex (\<lambda>n. selected n \<and> key n = b') ns"
proof (induction ns)
  case Nil
  then show ?case by simp
next
  case (Cons n ns)
  show ?case
  proof (cases "selected n")
    case True
    with Cons.prems(2) have "boundingBox False (pos n, key n, key n) ns = (l', t', b')"
      by simp
    from boundingBox_rest [OF this] True show ?thesis by auto
  next
    case False
    with Cons.prems have "list_ex selected ns" and "boundingBox True (l, t, b) ns = (l', t', b')"
      by simp_all
    from Cons.IH [OF this] show ?thesis by simp
  qed
qed

lemma rememberNotes_snapshot:
  "list_all (\<lambda>n. oldPos n = pos n \<and> oldKey n = key n \<and> oldLength n = length_t n)
     (m_notes (rememberNotes s))"
  by (simp add: rememberNotes_def rememberNote_def list_all_iff split: prod.splits)

lemma rememberNotes_box:
  assumes "list_ex selected (m_notes s)"
  shows "box_of_selection (rememberNotes s)"
proof -
  obtain l t b where
    bb: "boundingBox True (m_moveBoundaryLeft s, m_moveBoundaryTop s, m_moveBoundaryBottom s)
           (m_notes s) = (l, t, b)"
    by (metis prod_cases3)
  from boundingBox_first [OF assms bb] show ?thesis
    by (auto simp add: box_of_selection_def rememberNotes_def bb rememberNote_def list_ex_iff)
qed

lemma selectCurrentNote_box:
  assumes "i < length (m_notes s)" and "hasValidPattern s" and "\<not> selected (m_notes s ! i)"
    and "oldPos (m_notes s ! i) = pos (m_notes s ! i)"
    and "oldKey (m_notes s ! i) = key (m_notes s ! i)"
  shows "box_of_selection (selectCurrentNote s i)"
proof -
  define cur where "cur = (m_notes s ! i)\<lparr>selected := True\<rparr>"
  define ns where "ns = (map (setSelected False) (m_notes s))[i := cur]"
  have mem: "cur \<in> set ns"
    using assms(1) by (simp add: ns_def set_update_memI)
  have st: "m_notes (selectCurrentNote s i) = ns"
    "m_moveBoundaryLeft (selectCurrentNote s i) = pos cur"
    "m_moveBoundaryTop (selectCurrentNote s i) = key cur"
    "m_moveBoundaryBottom (selectCurrentNote s i) = key cur"
    using assms(1,2,3)
    by (simp_all add: selectCurrentNote_def clearSelectedNotes_def Let_def ns_def cur_def)
  have "selected cur \<and> oldPos cur = pos cur \<and> oldKey cur = key cur"
    using assms(4,5) by (simp add: cur_def)
  with mem show ?thesis
    unfolding box_of_selection_def st list_ex_iff by blast
qed

lemma boundingBox_rest_bounds:
  "boundingBox False (l, t, b) ns = (l', t', b') \<Longrightarrow>
    l' \<le> l \<and> t \<le> t' \<and> b' \<le> b \<and>
    list_all (\<lambda>n. \<not> selected n \<or> (l' \<le> pos n \<and> b' \<le> key n \<and> key n \<le> t')) ns"
proof (induction ns arbitrary: l t b)
  case Nil
  then show ?case by simp
next
  case (Cons n ns)
  show ?case
  proof (cases "selected n")
    case True
    with Cons.prems have
      "boundingBox False (min (pos n) l, max (key n) t, min (key n) b) ns = (l', t', b')"
      by simp
    from Cons.IH [OF this] True show ?thesis by simp
  next
    case False
    with Cons.prems have "boundingBox False (l, t, b) ns = (l', t', b')" by simp
    from Cons.IH [OF this] False show ?thesis by simp
  qed
qed

lemma boundingBox_first_bounds:
  "boundingBox True (l, t, b) ns = (l', t', b') \<Longrightarrow>
    list_all (\<lambda>n. \<not> selected n \<or> (l' \<le> pos n \<and> b' \<le> key n \<and> key n \<le> t')) ns"
proof (induction ns)
  case Nil
  then show ?case by simp
next
  case (Cons n ns)
  show ?case
  proof (cases "selected n")
    case True
    with Cons.prems have "boundingBox False (pos n, key n, key n) ns = (l', t', b')"
      by simp
    from boundingBox_rest_bounds [OF this] True show ?thesis by simp
  next
    case False
    with Cons.prems have "boundingBox True (l, t, b) ns = (l', t', b')" by simp
    from Cons.IH [OF this] False show ?thesis by simp
  qed
qed

lemma rememberNotes_box_bounds: "box_bounds_selection (rememberNotes s)"
proof -
  obtain l t b where
    bb: "boundingBox True (m_moveBoundaryLeft s, m_moveBoundaryTop s, m_moveBoundaryBottom s)
           (m_notes s) = (l, t, b)"
    by (metis prod_cases3)
  from boundingBox_first_bounds [OF bb] show ?thesis
    by (simp add: box_bounds_selection_def rememberNotes_def bb rememberNote_def list_all_iff)
qed

text \<open>
  Where no clamp acts.  In a moving update whose offsets take no selected note out of
  range (every selected note's snapshot position plus the tick offset is at least 0 and
  its snapshot key plus the key offset lies in \<open>[0, NumKeys]\<close>), with the moving boundary
  being the bounding box of the selection, \<open>dragNotes\<close> returns, every selected note is
  moved by the same offsets, and so every pair of selected notes keeps the differences in
  position and key that it had in the snapshot taken at pointer-down.
\<close>

lemma dragNotes_move_unclamped:
  assumes "moving s shift"
    and "drag_raw_offsets s x y alt = Some (off_ticks, off_key)"
    and "box_of_selection s"
    and "list_all (\<lambda>note. \<not> selected note \<or> not_clamped s off_ticks off_key note) (m_notes s)"
    and "i < length (m_notes s)" and "j < length (m_notes s)"
    and "selected (m_notes s ! i)" and "selected (m_notes s ! j)"
  shows "\<exists>s'. dragNotes s x y alt shift = Some s' \<and>
      pos (m_notes s' ! i) = oldPos (m_notes s ! i) + off_ticks \<and>
      key (m_notes s' ! i) = oldKey (m_notes s ! i) + off_key \<and>
      pos (m_notes s' ! i) - pos (m_notes s' ! j)
        = oldPos (m_notes s ! i) - oldPos (m_notes s ! j) \<and>
      key (m_notes s' ! i) - key (m_notes s' ! j)
        = oldKey (m_notes s ! i) - oldKey (m_notes s ! j)"
proof -
  have cl: "clamp_offsets s shift (off_ticks, off_key) = (off_ticks, off_key)"
    using box_not_clamped [OF assms(3,4)] by (simp add: clamp_offsets_id)
  define ns' where
    "ns' = fst (dragLoop (dragNote s shift off_ticks off_key) (dragStart s) (m_notes s))"
  have moved: "pos (ns' ! k) = oldPos (m_notes s ! k) + off_ticks \<and>
         key (ns' ! k) = oldKey (m_notes s ! k) + off_key"
    if k: "k < length (m_notes s)" and sel: "selected (m_notes s ! k)" for k
  proof -
    from dragLoop_nth [OF k] obtain v where
      "ns' ! k = fst (dragNote s shift off_ticks off_key v (m_notes s ! k))"
      unfolding ns'_def by blast
    then have e: "ns' ! k = (m_notes s ! k)\<lparr>pos := max 0 (oldPos (m_notes s ! k) + off_ticks),
        key := min (max 0 (oldKey (m_notes s ! k) + off_key)) (NumKeys s)\<rparr>"
      by (simp add: dragNote_moving [OF assms(1) sel])
    from assms(4) k sel have "not_clamped s off_ticks off_key (m_notes s ! k)"
      by (auto simp add: list_all_length)
    with e show ?thesis by (simp add: not_clamped_def)
  qed
  have "dragNotes s x y alt shift = Some (s\<lparr>m_notes := ns',
      m_lenOfNewNotes := lenOfNewNotes (snd (dragLoop (dragNote s shift off_ticks off_key)
         (dragStart s) (m_notes s)))\<rparr>)"
    by (simp add: dragNotes_eq assms(2) cl ns'_def)
  moreover note moved [OF assms(5,7)] moved [OF assms(6,8)]
  ultimately show ?thesis by simp
qed

lemma c3_offsets: "drag_raw_offsets c3_state 132 88 False = Some (32, 1)"
  by (simp add: drag_raw_offsets_def c3_state_def demo_def int_div_def cdiv_def
      quantize_offset_def quantization_def getKey_def keyAreaBottom_def KEY_LINE_HEIGHT_def
      PR_BOTTOM_MARGIN_def KeysPerOctave_def)

lemma dragNotes_move_unclamped_example:
  "map_option (\<lambda>s'. (pos (m_notes s' ! 0), key (m_notes s' ! 0),
        pos (m_notes s' ! 0) - pos (m_notes s' ! 1), key (m_notes s' ! 0) - key (m_notes s' ! 1)))
     (dragNotes c3_state 132 88 False False) = Some (128, 61, - 50, - 2)"
proof -
  have m: "moving c3_state False"
    by (simp add: moving_def c3_state_def demo_def)
  have b: "box_of_selection c3_state"
    by (simp add: box_of_selection_def c3_state_def demo_def mkNote_def)
  have n: "list_all (\<lambda>note. \<not> selected note \<or> not_clamped c3_state 32 1 note)
      (m_notes c3_state)"
    by (simp add: not_clamped_def c3_state_def demo_def mkNote_def NumKeys_def KeysPerOctave_def)
  have "\<exists>s'. dragNotes c3_state 132 88 False False = Some s' \<and>
      pos (m_notes s' ! 0) = oldPos (m_notes c3_state ! 0) + 32 \<and>
      key (m_notes s' ! 0) = oldKey (m_notes c3_state ! 0) + 1 \<and>
      pos (m_notes s' ! 0) - pos (m_notes s' ! 1)
        = oldPos (m_notes c3_state ! 0) - oldPos (m_notes c3_state ! 1) \<and>
      key (m_notes s' ! 0) - key (m_notes s' ! 1)
        = oldKey (m_notes c3_state ! 0) - oldKey (m_notes c3_state ! 1)"
    by (rule dragNotes_move_unclamped [OF m c3_offsets b n])
       (simp_all add: c3_state_def demo_def mkNote_def)
  then show ?thesis
    by (auto simp add: c3_state_def demo_def mkNote_def)
qed

text \<open>
  Where the clamp at the left or at the bottom acts, or none.  In a moving update in
  which the raw key offset does not take the top of the moving boundary above \<open>NumKeys\<close>,
  with the boundary bounding the selection and no higher than \<open>NumKeys\<close> keys, every
  selected note is moved by exactly the offsets that \<open>clamp_offsets\<close> returns: the bounds
  applied to each note's own position and key do not act, and the shape of the selection
  is kept, also when the offset has been cut at tick 0 or at key 0.
\<close>

lemma clamp_offsets_left_bottom:
  assumes "moving s shift" and "m_moveBoundaryTop s + ok \<le> NumKeys s"
  shows "clamp_offsets s shift (ot, ok) =
      (if m_moveBoundaryLeft s + ot < 0 then - m_moveBoundaryLeft s else ot,
       if m_moveBoundaryBottom s + ok < 0 then - m_moveBoundaryBottom s else ok)"
  using assms by (simp add: clamp_offsets_def)

lemma dragNotes_shared_clamp:
  assumes mv: "moving s shift"
    and offs: "drag_raw_offsets s x y alt = Some (off_ticks, off_key)"
    and box: "box_bounds_selection s"
    and top: "m_moveBoundaryTop s + off_key \<le> NumKeys s"
    and fits: "m_moveBoundaryTop s - m_moveBoundaryBottom s \<le> NumKeys s"
    and i: "i < length (m_notes s)" and sel: "selected (m_notes s ! i)"
  shows "\<exists>s'. dragNotes s x y alt shift = Some s' \<and>
      pos (m_notes s' ! i)
        = oldPos (m_notes s ! i) + fst (clamp_offsets s shift (off_ticks, off_key)) \<and>
      key (m_notes s' ! i)
        = oldKey (m_notes s ! i) + snd (clamp_offsets s shift (off_ticks, off_key))"
proof -
  define ct where "ct = fst (clamp_offsets s shift (off_ticks, off_key))"
  define ck where "ck = snd (clamp_offsets s shift (off_ticks, off_key))"
  have cl: "clamp_offsets s shift (off_ticks, off_key) = (ct, ck)"
    by (simp add: ct_def ck_def)
  have ct: "ct = (if m_moveBoundaryLeft s + off_ticks < 0 then - m_moveBoundaryLeft s
                  else off_ticks)"
    and ck: "ck = (if m_moveBoundaryBottom s + off_key < 0 then - m_moveBoundaryBottom s
                   else off_key)"
    by (simp_all add: ct_def ck_def clamp_offsets_left_bottom [OF mv top])
  from box i sel have b: "m_moveBoundaryLeft s \<le> oldPos (m_notes s ! i)"
      "m_moveBoundaryBottom s \<le> oldKey (m_notes s ! i)"
      "oldKey (m_notes s ! i) \<le> m_moveBoundaryTop s"
    by (auto simp add: box_bounds_selection_def list_all_length)
  have in_range: "0 \<le> oldPos (m_notes s ! i) + ct" "0 \<le> oldKey (m_notes s ! i) + ck"
      "oldKey (m_notes s ! i) + ck \<le> NumKeys s"
    using b top fits by (auto simp add: ct ck split: if_splits)
  define ns' where "ns' = fst (dragLoop (dragNote s shift ct ck) (dragStart s) (m_notes s))"
  from dragLoop_nth [OF i] obtain v where
    "ns' ! i = fst (dragNote s shift ct ck v (m_notes s ! i))"
    unfolding ns'_def by blast
  then have e: "ns' ! i = (m_notes s ! i)\<lparr>pos := max 0 (oldPos (m_notes s ! i) + ct),
      key := min (max 0 (oldKey (m_notes s ! i) + ck)) (NumKeys s)\<rparr>"
    by (simp add: dragNote_moving [OF mv sel])
  have "dragNotes s x y alt shift = Some (s\<lparr>m_notes := ns',
      m_lenOfNewNotes := lenOfNewNotes (snd (dragLoop (dragNote s shift ct ck)
         (dragStart s) (m_notes s)))\<rparr>)"
    by (simp add: dragNotes_eq offs cl ns'_def)
  with e in_range show ?thesis
    by (simp add: ct_def [symmetric] ck_def [symmetric])
qed

text \<open>
  C3.  The claim ends: the clamp is applied to the shared offset, never per note.  At the
  top of the key range the code does otherwise.  The state \<open>top_state\<close> is in the moving
  action with two selected notes at keys 2 and 118 and an unselected one at key 60; the
  moving boundary is the bounding box of the selection (left 10, top 118, bottom 2) and
  \<open>NumKeys\<close> is 120.  An update 9 keys up gives the raw offsets \<open>(0, 9)\<close>.  The top of the
  boundary would pass \<open>NumKeys\<close>, and the adjustment of the shared offset,
  \<open>off_key -= NumKeys - (m_moveBoundaryTop + off_key)\<close>, makes the key offset 16 instead
  of 2.  The bound on each note's own key then cuts the upper note at 120, and the lower
  note goes to 18: the two selected notes, 116 keys apart in the snapshot, end 102 keys
  apart.
\<close>

theorem dragNotes_top_clamp_per_note:
  "moving top_state False
   \<and> box_of_selection top_state
   \<and> map selected (m_notes top_state) = [True, True, False]
   \<and> map oldKey (m_notes top_state) = [2, 118, 60]
   \<and> NumKeys top_state = 120
   \<and> drag_raw_offsets top_state 100 0 True = Some (0, 9)
   \<and> clamp_offsets top_state False (0, 9) = (0, 16)
   \<and> map_option (\<lambda>s. map key (m_notes s)) (dragNotes top_state 100 0 True False)
       = Some [18, 120, 60]"
  by (simp add: dragNotes_def drag_raw_offsets_def top_state_def demo_def int_div_def cdiv_def
      getKey_def keyAreaBottom_def KEY_LINE_HEIGHT_def PR_BOTTOM_MARGIN_def KeysPerOctave_def
      clamp_offsets_def moving_def dragNote_def mkNote_def NumKeys_def box_of_selection_def)

section \<open>Shift-held resize (C4)\<close>

lemma dragLoop_append:
  "dragLoop f v (xs @ ys) =
     (fst (dragLoop f v xs) @ fst (dragLoop f (snd (dragLoop f v xs)) ys),
      snd (dragLoop f (snd (dragLoop f v xs)) ys))"
  by (induction xs arbitrary: v) (simp_all add: dragLoop_Cons del: dragLoop.simps(2))

lemma dragNote_shift_unselected:
  "m_action s = ActionResizeNote \<Longrightarrow> \<not> selected n \<Longrightarrow>
    dragNote s True ot ok v n =
      (n\<lparr>pos := (if oldPos n + shift_offset v \<noteq> 0 \<and> pos n = shift_ref_pos v
                  then oldPos n + shift_offset v - ot else oldPos n + shift_offset v)\<rparr>, v)"
  by (simp add: dragNote_def Let_def)

lemma dragLoop_shift_unselected:
  "m_action s = ActionResizeNote \<Longrightarrow> list_all (\<lambda>n. \<not> selected n) ns \<Longrightarrow>
    dragLoop (dragNote s True ot ok) v ns =
      (map (\<lambda>n. n\<lparr>pos := (if oldPos n + shift_offset v \<noteq> 0 \<and> pos n = shift_ref_pos v
                  then oldPos n + shift_offset v - ot else oldPos n + shift_offset v)\<rparr>) ns, v)"
  by (induction ns) (simp_all add: dragLoop_Cons dragNote_shift_unselected del: dragLoop.simps(2))

lemma dragNote_shift_selected:
  "m_action s = ActionResizeNote \<Longrightarrow> selected a \<Longrightarrow> oldPos a = pos a \<Longrightarrow> 0 \<le> pos a \<Longrightarrow>
    dragNote s True ot ok (dragStart s) a =
      (a\<lparr>length_t := resize_length a ot\<rparr>,
       if oldLength a + ot \<le> 0 then (dragStart s)\<lparr>lenOfNewNotes := 1\<rparr>
       else \<lparr>shift_offset = ot, shift_ref_pos = pos a, lenOfNewNotes = oldLength a + ot\<rparr>)"
  by (simp add: dragNote_def Let_def dragStart_def moving_def resize_length_def)

lemma sorted_split:
  "sorted (map f (pre @ a # post)) \<Longrightarrow>
    list_all (\<lambda>n. f n \<le> f a) pre \<and> list_all (\<lambda>n. f a \<le> f n) post"
  by (auto simp add: sorted_append list_all_iff)

text \<open>
  What a shift-held resize does.  The one selected note \<open>a\<close> is resized in a note vector
  ordered by the snapshot positions, where no current position is negative and the notes
  up to \<open>a\<close> are at their snapshot positions (as they are at the first update of a gesture,
  and stay).  Then \<open>dragNotes\<close> returns; the notes before \<open>a\<close> are unchanged; of \<open>a\<close> only
  the length changes; of every note after \<open>a\<close> only the position changes, although none
  of them is selected.  A note after \<open>a\<close> is placed as \<open>shifted_pos\<close> says, with one
  exception: when the length stays positive, a note at the position of \<open>a\<close> whose
  snapshot position plus the offset is exactly 0 is placed at tick 0 and not at its
  snapshot position.
\<close>

lemma dragNotes_shift_resize_followers:
  assumes act: "m_action s = ActionResizeNote"
    and split: "m_notes s = pre @ a # post"
    and sel: "selected a" and unsel: "list_all (\<lambda>n. \<not> selected n) (pre @ post)"
    and fresh: "list_all (\<lambda>n. oldPos n = pos n) (pre @ [a])"
    and nonneg: "list_all (\<lambda>n. 0 \<le> pos n) (m_notes s)"
    and srt: "sorted (map oldPos (m_notes s))"
    and offs: "drag_raw_offsets s x y alt = Some (off_ticks, off_key)"
  shows "\<exists>s'. dragNotes s x y alt True = Some s' \<and>
      m_notes s' = pre @ a\<lparr>length_t := resize_length a off_ticks\<rparr>
                     # map (\<lambda>n. n\<lparr>pos := (if 0 < oldLength a + off_ticks \<and> pos n = pos a \<and>
                                                oldPos n + off_ticks = 0
                                             then 0 else shifted_pos a off_ticks n)\<rparr>) post \<and>
      list_all (\<lambda>n. oldPos n \<le> oldPos a) pre \<and> list_all (\<lambda>n. oldPos a \<le> oldPos n) post"
proof -
  let ?f = "dragNote s True off_ticks off_key"
  let ?g = "\<lambda>n. n\<lparr>pos := (if 0 < oldLength a + off_ticks \<and> pos n = pos a \<and>
                              oldPos n + off_ticks = 0
                           then 0 else shifted_pos a off_ticks n)\<rparr>"
  have cl: "clamp_offsets s True (off_ticks, off_key) = (off_ticks, off_key)"
    using act by (simp add: clamp_offsets_def moving_def)
  have upre: "list_all (\<lambda>n. \<not> selected n) pre" and upost: "list_all (\<lambda>n. \<not> selected n) post"
    using unsel by simp_all
  have fpre: "list_all (\<lambda>n. oldPos n = pos n \<and> 0 \<le> pos n) pre"
    and fa: "oldPos a = pos a" "0 \<le> pos a"
    and fpost: "list_all (\<lambda>n. 0 \<le> pos n) post"
    using fresh nonneg split by (simp_all add: list_all_iff)
  have pre_loop: "dragLoop ?f (dragStart s) pre = (pre, dragStart s)"
  proof -
    have "map (\<lambda>n. n\<lparr>pos := (if oldPos n + shift_offset (dragStart s) \<noteq> 0 \<and>
              pos n = shift_ref_pos (dragStart s)
            then oldPos n + shift_offset (dragStart s) - off_ticks
            else oldPos n + shift_offset (dragStart s))\<rparr>) pre = pre"
      using fpre by (intro map_idI) (auto simp add: list_all_iff dragStart_def)
    then show ?thesis
      by (simp add: dragLoop_shift_unselected [OF act upre])
  qed
  define v1 where "v1 = snd (?f (dragStart s) a)"
  have a_step: "?f (dragStart s) a = (a\<lparr>length_t := resize_length a off_ticks\<rparr>, v1)"
    by (simp add: v1_def dragNote_shift_selected [OF act sel fa])
  have v1: "v1 = (if oldLength a + off_ticks \<le> 0 then (dragStart s)\<lparr>lenOfNewNotes := 1\<rparr>
       else \<lparr>shift_offset = off_ticks, shift_ref_pos = pos a,
              lenOfNewNotes = oldLength a + off_ticks\<rparr>)"
    by (simp add: v1_def dragNote_shift_selected [OF act sel fa])
  have post_loop: "fst (dragLoop ?f v1 post) = map ?g post"
  proof -
    have "map (\<lambda>n. n\<lparr>pos := (if oldPos n + shift_offset v1 \<noteq> 0 \<and> pos n = shift_ref_pos v1
            then oldPos n + shift_offset v1 - off_ticks
            else oldPos n + shift_offset v1)\<rparr>) post
        = map ?g post"
      using fpost fa
      by (intro map_cong refl) (auto simp add: list_all_iff v1 shifted_pos_def dragStart_def)
    then show ?thesis
      by (simp add: dragLoop_shift_unselected [OF act upost])
  qed
  have "fst (dragLoop ?f (dragStart s) (m_notes s)) =
      pre @ a\<lparr>length_t := resize_length a off_ticks\<rparr> # map ?g post"
    by (simp add: split dragLoop_append dragLoop_Cons pre_loop a_step post_loop
        del: dragLoop.simps(2))
  moreover have "list_all (\<lambda>n. oldPos n \<le> oldPos a) pre \<and>
      list_all (\<lambda>n. oldPos a \<le> oldPos n) post"
    using srt unfolding split by (rule sorted_split)
  ultimately show ?thesis
    by (simp add: dragNotes_eq offs cl)
qed

lemma c4_offsets: "drag_raw_offsets c4_state 92 100 True = Some (- 8, 0)"
  by (simp add: drag_raw_offsets_def c4_state_def demo_def int_div_def cdiv_def
      getKey_def keyAreaBottom_def KEY_LINE_HEIGHT_def PR_BOTTOM_MARGIN_def KeysPerOctave_def)

lemma dragNotes_shift_resize_followers_example:
  "map_option (\<lambda>s. map (\<lambda>n. (pos n, length_t n, key n)) (m_notes s))
      (dragNotes c4_state 92 100 True True)
    = Some [(0, 48, 55), (16, 40, 60), (16, 48, 64), (56, 48, 60)]"
proof -
  have "\<exists>s'. dragNotes c4_state 92 100 True True = Some s' \<and>
      m_notes s' = [mkNote 0 48 55 False]
        @ (mkNote 16 48 60 True)\<lparr>length_t := resize_length (mkNote 16 48 60 True) (- 8)\<rparr>
        # map (\<lambda>n. n\<lparr>pos := (if 0 < oldLength (mkNote 16 48 60 True) + (- 8) \<and>
                                  pos n = pos (mkNote 16 48 60 True) \<and> oldPos n + (- 8) = 0
                               then 0 else shifted_pos (mkNote 16 48 60 True) (- 8) n)\<rparr>)
            [mkNote 16 48 64 False, mkNote 64 48 60 False] \<and>
      list_all (\<lambda>n. oldPos n \<le> oldPos (mkNote 16 48 60 True)) [mkNote 0 48 55 False] \<and>
      list_all (\<lambda>n. oldPos (mkNote 16 48 60 True) \<le> oldPos n)
        [mkNote 16 48 64 False, mkNote 64 48 60 False]"
    by (rule dragNotes_shift_resize_followers [OF _ _ _ _ _ _ _ c4_offsets])
       (simp_all add: c4_state_def demo_def mkNote_def)
  then show ?thesis
    by (auto simp add: mkNote_def resize_length_def shifted_pos_def)
qed

text \<open>
  C4.  The claim says that every note at a lesser or equal original position is left
  entirely unchanged, and the loop compensates for that: a note that is at the position
  of the resized note has the offset taken off again.  The compensation is guarded by
  \<open>shifted_pos && pos == shift_ref_pos\<close>, and so it is skipped when the shifted position
  is exactly 0.  In \<open>c4_cex\<close> the selected note and an unselected note are both at tick
  16, and a third note is at tick 64.  Shortening the selected note by 8 ticks leaves
  the unselected note at tick 16; shortening it by 16 ticks sends that note to tick 0.
\<close>

theorem dragNotes_shift_resize_moves_equal_position:
  "m_action c4_cex = ActionResizeNote
   \<and> map selected (m_notes c4_cex) = [True, False, False]
   \<and> map pos (m_notes c4_cex) = [16, 16, 64]
   \<and> map oldPos (m_notes c4_cex) = [16, 16, 64]
   \<and> drag_raw_offsets c4_cex 92 100 True = Some (- 8, 0)
   \<and> map_option (\<lambda>s. map pos (m_notes s)) (dragNotes c4_cex 92 100 True True)
       = Some [16, 16, 56]
   \<and> drag_raw_offsets c4_cex 84 100 True = Some (- 16, 0)
   \<and> map_option (\<lambda>s. map pos (m_notes s)) (dragNotes c4_cex 84 100 True True)
       = Some [16, 0, 48]"
  by (simp add: dragNotes_def drag_raw_offsets_def c4_cex_def demo_def int_div_def cdiv_def
      quantize_offset_def quantization_def getKey_def keyAreaBottom_def KEY_LINE_HEIGHT_def
      PR_BOTTOM_MARGIN_def KeysPerOctave_def
      clamp_offsets_def moving_def dragNote_def mkNote_def NumKeys_def)

section \<open>Selection commits (C5, C10)\<close>

lemma inSelection_selected [simp]:
  "inSelection s a b c d (note\<lparr>selected := v\<rparr>) = inSelection s a b c d note"
  by (simp add: inSelection_def)

lemma selectNote_additive:
  "selectNote s True a b c d note =
     (if length_t note \<noteq> 0 \<and> inSelection s a b c d note
      then note\<lparr>selected := \<not> selected note\<rparr> else note)"
  by (simp add: selectNote_def)

lemma computeSelectedNotes_additive_notes:
  "m_notes (computeSelectedNotes s True) =
     map (\<lambda>note. if toggles s note then note\<lparr>selected := \<not> selected note\<rparr> else note)
       (m_notes s)"
  by (cases "selectionRect s")
     (auto simp add: computeSelectedNotes_def toggles_def removeSelection_def
        selectNote_additive map_idI)

lemma toggles_withRegionOf:
  "toggles (withRegionOf s (computeSelectedNotes s True)) note = toggles s note"
  by (cases "selectionRect s")
     (auto simp add: toggles_def withRegionOf_def computeSelectedNotes_def removeSelection_def
        noSelection_def selectionRect_def inSelection_def Let_def
        split: if_splits prod.splits)

lemma toggles_selected [simp]: "toggles s (note\<lparr>selected := v\<rparr>) = toggles s note"
  by (simp add: toggles_def split: prod.splits)

text \<open>
  A commit that does not return early resets the region, so a second call that follows
  it directly returns early.
\<close>

lemma computeSelectedNotes_resets_region:
  "\<not> noSelection s \<Longrightarrow> noSelection (computeSelectedNotes s shift)"
  by (simp add: computeSelectedNotes_def removeSelection_def noSelection_def split: prod.splits)

lemma computeSelectedNotes_second_call:
  "\<not> noSelection s \<Longrightarrow>
    computeSelectedNotes (computeSelectedNotes s shift) shift' = computeSelectedNotes s shift"
  using computeSelectedNotes_resets_region [of s shift]
  by (simp add: computeSelectedNotes_def [of "computeSelectedNotes s shift"])

text \<open>
  C5.  For every note store and every selection region, committing the selection
  additively twice with the same region gives back the notes as they were: the first
  commit toggles the \<open>selected\<close> flag of exactly the matched notes and changes no other
  note, and the second commit toggles the same notes back.
\<close>

theorem computeSelectedNotes_additive_twice:
  "m_notes (computeSelectedNotes (withRegionOf s (computeSelectedNotes s True)) True) = m_notes s
   \<and> m_notes (computeSelectedNotes s True) =
       map (\<lambda>note. if toggles s note then note\<lparr>selected := \<not> selected note\<rparr> else note)
         (m_notes s)"
proof
  let ?s1 = "computeSelectedNotes s True"
  have n1: "m_notes (withRegionOf s ?s1) = m_notes ?s1"
    by (simp add: withRegionOf_def)
  have "m_notes (computeSelectedNotes (withRegionOf s ?s1) True) =
      map (\<lambda>note. if toggles s note then note\<lparr>selected := \<not> selected note\<rparr> else note)
        (m_notes ?s1)"
    by (simp add: computeSelectedNotes_additive_notes [of "withRegionOf s ?s1"]
        toggles_withRegionOf n1)
  also have "\<dots> = m_notes s"
    by (simp add: computeSelectedNotes_additive_notes [of s] map_idI o_def)
  finally show "m_notes (computeSelectedNotes (withRegionOf s ?s1) True) = m_notes s" .
next
  show "m_notes (computeSelectedNotes s True) =
       map (\<lambda>note. if toggles s note then note\<lparr>selected := \<not> selected note\<rparr> else note)
         (m_notes s)"
    by (rule computeSelectedNotes_additive_notes)
qed

theorem computeSelectedNotes_additive_twice_witness:
  "map selected (m_notes (computeSelectedNotes
       (withRegionOf c5_state (computeSelectedNotes c5_state True)) True)) = [True, False, False]
   \<and> map selected (m_notes (computeSelectedNotes c5_state True)) = [False, True, False]"
  using computeSelectedNotes_additive_twice [of c5_state]
  by (simp add: c5_state_def demo_def mkNote_def toggles_def selectionRect_def noSelection_def
      inSelection_def)

text \<open>
  C10.  When the four fields of the selection region are all zero, committing the
  selection returns at once and leaves the whole state as it was, the \<open>selected\<close> flags
  included, also for a commit that is not additive.
\<close>

theorem computeSelectedNotes_no_region:
  assumes "m_selectStartTick s = 0" and "m_selectedTick s = 0"
    and "m_selectStartKey s = 0" and "m_selectedKeys s = 0"
  shows "computeSelectedNotes s shift = s"
  using assms by (simp add: computeSelectedNotes_def noSelection_def)

theorem computeSelectedNotes_no_region_witness:
  "computeSelectedNotes c10_state False = c10_state
   \<and> map selected (m_notes (computeSelectedNotes c10_state False)) = [True, False]"
  using computeSelectedNotes_no_region [of c10_state False]
  by (simp add: c10_state_def demo_def mkNote_def)

section \<open>Creating a note with the draw tool\<close>

lemma quantization_clear: "quantization (clearSelectedNotes s) = quantization s"
  by (simp add: quantization_def newNoteLen_def clearSelectedNotes_def)

lemma newNoteLen_clear: "newNoteLen (clearSelectedNotes s) = newNoteLen s"
  by (simp add: newNoteLen_def clearSelectedNotes_def)

lemma makeNote_clear: "makeNote (clearSelectedNotes s) = makeNote s"
  by (intro ext) (simp add: makeNote_def clearSelectedNotes_def)

text \<open>
  The note that \<open>mousePressEvent\<close> builds and passes to \<open>addNote\<close>, when the pointer goes
  down with the draw tool and the scan finds no note under it: it is selected, has the
  configured new-note length and the pointer key, and its position is the pointer tick,
  as computed from the pixel and not snapped, minus half the quantization (halved in
  integer arithmetic).  The comment on that subtraction says that it prepares a
  quantization of the note which rounds at the half; that quantization is not in this
  file, so where the note stands in the pattern after \<open>addNote\<close> is not settled here.
\<close>

lemma mousePressEvent_draw_passes:
  assumes "pointer_tick s x = Some pos_ticks"
    and "scanNotes (clicked s False pos_ticks (getKey s y)) (m_notes s) (length (m_notes s))
           = None"
    and "quantization s = Some q" and "newNoteLen s = Some note_len"
  shows "created (mousePressEvent_draw s x y shiftMod) =
      Some \<lparr>pos = pos_ticks - cdiv q 2, length_t = note_len, key = getKey s y,
            volume = m_lastNoteVolume s, panning = m_lastNotePanning s, selected = True,
            oldPos = pos_ticks - cdiv q 2, oldLength = note_len, oldKey = getKey s y\<rparr>"
  using assms
  by (simp add: mousePressEvent_draw_def Let_def created_def quantization_clear newNoteLen_clear
      makeNote_clear makeNote_def)

text \<open>
  With a note in the pattern that is not under the pointer (tick 96, key 60), the pointer
  at tick 10 and key 69, and the granularity 16: the note passed on has tick 2, length
  48 and key 69.
\<close>

lemma mousePressEvent_draw_passes_example:
  "pointer_tick c6_state 74 = Some 10 \<and> quantization c6_state = Some 16
   \<and> map_option (\<lambda>n. (pos n, length_t n, key n))
        (created (mousePressEvent_draw c6_state 74 100 False)) = Some (2, 48, 69)"
proof -
  have p: "pointer_tick c6_state 74 = Some 10"
    by (simp add: pointer_tick_def c6_state_def demo_def int_div_def cdiv_def
        WHITE_KEY_WIDTH_def)
  have q: "quantization c6_state = Some 16"
    by (simp add: quantization_def c6_state_def demo_def int_div_def cdiv_def)
  have k: "getKey c6_state 100 = 69"
    by (simp add: cdiv_def getKey_def c6_state_def demo_def keyAreaBottom_def
        KEY_LINE_HEIGHT_def PR_BOTTOM_MARGIN_def KeysPerOctave_def)
  have "created (mousePressEvent_draw c6_state 74 100 False) =
      Some \<lparr>pos = 10 - cdiv 16 2, length_t = 48, key = getKey c6_state 100,
            volume = m_lastNoteVolume c6_state, panning = m_lastNotePanning c6_state,
            selected = True,
            oldPos = 10 - cdiv 16 2, oldLength = 48, oldKey = getKey c6_state 100\<rparr>"
    by (rule mousePressEvent_draw_passes [OF p _ q])
       (simp_all add: k, simp_all add: c6_state_def demo_def mkNote_def clicked_def
          newNoteLen_def)
  with p q k show ?thesis
    by (simp add: cdiv_def)
qed

section \<open>Keyboard shifts (C7)\<close>

lemma shiftPosLoop_Cons:
  "shiftPosLoop u first amount left (n # ns) =
    (if selected n \<or> (u \<and> length_t n > 0) then
       (n\<lparr>pos := pos n + (if first \<and> pos n + amount < 0 then - pos n else amount)\<rparr>
          # fst (shiftPosLoop u False (if first \<and> pos n + amount < 0 then - pos n else amount)
                  (if first then pos n else left) ns),
        snd (shiftPosLoop u False (if first \<and> pos n + amount < 0 then - pos n else amount)
                  (if first then pos n else left) ns))
     else (n # fst (shiftPosLoop u first amount left ns),
           snd (shiftPosLoop u first amount left ns)))"
  by (simp add: Let_def split: prod.splits)

text \<open>Once the amount is fixed, notes at or after a position it keeps at 0 or above stay there.\<close>

lemma shiftPosLoop_rest:
  "list_all (\<lambda>n. b \<le> pos n) ns \<Longrightarrow> 0 \<le> b \<Longrightarrow> 0 \<le> b + amount \<Longrightarrow>
    list_all (\<lambda>n. 0 \<le> pos n) (fst (shiftPosLoop u False amount left ns))"
  by (induction ns arbitrary: left)
     (simp_all add: shiftPosLoop_Cons del: shiftPosLoop.simps(2))

lemma shiftPosLoop_first:
  "sorted (map pos ns) \<Longrightarrow> list_all (\<lambda>n. 0 \<le> pos n) ns \<Longrightarrow>
    list_all (\<lambda>n. 0 \<le> pos n) (fst (shiftPosLoop u True amount left ns))"
proof (induction ns arbitrary: left)
  case Nil
  then show ?case by simp
next
  case (Cons n ns)
  have later: "list_all (\<lambda>m. pos n \<le> pos m) ns" and n0: "0 \<le> pos n"
    using Cons.prems by (auto simp add: list_all_iff)
  have tl: "sorted (map pos ns)" "list_all (\<lambda>n. 0 \<le> pos n) ns"
    using Cons.prems by simp_all
  show ?case
    using shiftPosLoop_rest [OF later n0, of amount u "pos n"]
      shiftPosLoop_rest [OF later n0, of "- pos n" u "pos n"]
      Cons.IH [OF tl, of left] n0
    by (cases u) (auto simp add: shiftPosLoop_Cons simp del: shiftPosLoop.simps(2))
qed

lemma shiftPosLoop_keys: "map key (fst (shiftPosLoop u f amount left ns)) = map key ns"
  by (induction ns arbitrary: f amount left)
     (simp_all add: shiftPosLoop_Cons del: shiftPosLoop.simps(2))

text \<open>What the loop does: it moves every affected note by one amount.\<close>

lemma shiftPosLoop_False:
  "fst (shiftPosLoop u False amount left ns) =
     map (\<lambda>n. if shiftAffected u n then setPos (pos n + amount) n else n) ns"
  by (induction ns arbitrary: left)
     (simp_all add: shiftPosLoop_Cons shiftAffected_def del: shiftPosLoop.simps(2))

lemma shiftPosLoop_True:
  "fst (shiftPosLoop u True amount left ns) =
     map (\<lambda>n. if shiftAffected u n then setPos (pos n + shiftAmount u amount ns) n else n) ns"
proof (induction ns)
  case Nil
  then show ?case by simp
next
  case (Cons n ns)
  show ?case
  proof (cases "shiftAffected u n")
    case True
    then have c: "selected n \<or> (u \<and> length_t n > 0)"
      by (simp add: shiftAffected_def)
    have a: "shiftAmount u amount (n # ns) = (if pos n + amount < 0 then - pos n else amount)"
      using True by (simp add: shiftAmount_def)
    show ?thesis
      unfolding a
      by (simp add: shiftPosLoop_Cons c shiftPosLoop_False True del: shiftPosLoop.simps(2))
  next
    case False
    then have c: "\<not> (selected n \<or> (u \<and> length_t n > 0))"
      by (simp add: shiftAffected_def)
    have a: "shiftAmount u amount (n # ns) = shiftAmount u amount ns"
      using False by (simp add: shiftAmount_def)
    show ?thesis
      unfolding a
      by (simp add: shiftPosLoop_Cons c Cons.IH False del: shiftPosLoop.simps(2))
  qed
qed

text \<open>
  With no pattern the two functions have no result.  With a pattern they return:
  \<open>shiftPos\<close> adds to the position of every affected note the amount clamped once,
  against the first affected note, and changes nothing else of a note; \<open>shiftSemiTone\<close>
  hands the sum of key and amount to \<open>setKey\<close> without a range check of its own.
\<close>

lemma shiftPos_no_pattern:
  "\<not> hasValidPattern s \<Longrightarrow> shiftPos s amount = None \<and> shiftSemiTone s amount = None"
  by (simp add: shiftPos_def shiftSemiTone_def)

lemma shiftPos_notes:
  "hasValidPattern s \<Longrightarrow>
    map_option m_notes (shiftPos s amount) =
      Some (map (\<lambda>n. if shiftAffected (\<not> isSelection s) n
                      then setPos (pos n + shiftAmount (\<not> isSelection s) amount (m_notes s)) n
                      else n) (m_notes s))"
proof -
  assume p: "hasValidPattern s"
  obtain ns left where
    l: "shiftPosLoop (\<not> isSelection s) True amount (m_moveBoundaryLeft s) (m_notes s)
          = (ns, left)"
    by (cases "shiftPosLoop (\<not> isSelection s) True amount (m_moveBoundaryLeft s) (m_notes s)")
  have "ns = map (\<lambda>n. if shiftAffected (\<not> isSelection s) n
                      then setPos (pos n + shiftAmount (\<not> isSelection s) amount (m_notes s)) n
                      else n) (m_notes s)"
    using shiftPosLoop_True [of "\<not> isSelection s" amount "m_moveBoundaryLeft s" "m_notes s"]
    by (simp add: l)
  then show ?thesis
    using p by (simp add: shiftPos_def Let_def l)
qed

lemma shiftSemiTone_notes:
  "hasValidPattern s \<Longrightarrow>
    map_option m_notes (shiftSemiTone s amount) =
      Some (map (\<lambda>n. if \<not> isSelection s \<or> selected n then setKey (key n + amount) n else n)
             (m_notes s))"
  by (simp add: shiftSemiTone_def Let_def)

text \<open>
  \<open>dragNotes\<close> with shift-held resize places the following notes without a bound: a
  note at tick 16 behind a resized note at tick 0, shortened by 32 ticks, ends at tick
  \<open>-16\<close>.
\<close>

lemma dragNotes_shift_resize_negative:
  "map_option (\<lambda>s. map pos (m_notes s))
     (dragNotes (demo\<lparr>m_action := ActionResizeNote,
         m_notes := [mkNote 0 48 60 True, mkNote 16 48 64 False]\<rparr>) 68 100 True True)
     = Some [0, - 16]"
  by (simp add: dragNotes_def drag_raw_offsets_def demo_def int_div_def cdiv_def
      getKey_def keyAreaBottom_def KEY_LINE_HEIGHT_def PR_BOTTOM_MARGIN_def KeysPerOctave_def
      clamp_offsets_def moving_def dragNote_def mkNote_def NumKeys_def)

text \<open>
  Where the one clamp of \<open>shiftPos\<close> is enough: on a pattern whose note vector is in
  ascending order of position with no negative position, \<open>shiftPos\<close> with any amount
  returns, leaves every note at a position of at least 0 and changes no key.
\<close>

lemma shiftPos_sorted_nonneg:
  assumes "hasValidPattern s"
    and "sorted (map pos (m_notes s))" and "list_all (\<lambda>n. 0 \<le> pos n) (m_notes s)"
  shows "\<exists>s'. shiftPos s amount = Some s' \<and> list_all (\<lambda>n. 0 \<le> pos n) (m_notes s')
    \<and> map key (m_notes s') = map key (m_notes s)"
proof -
  obtain ns left where
    l: "shiftPosLoop (\<not> isSelection s) True amount (m_moveBoundaryLeft s) (m_notes s)
          = (ns, left)"
    by (cases "shiftPosLoop (\<not> isSelection s) True amount (m_moveBoundaryLeft s) (m_notes s)")
  have "list_all (\<lambda>n. 0 \<le> pos n) ns"
    using shiftPosLoop_first [OF assms(2,3), of "\<not> isSelection s" amount "m_moveBoundaryLeft s"]
    by (simp add: l)
  moreover have "map key ns = map key (m_notes s)"
    using shiftPosLoop_keys [of "\<not> isSelection s" True amount "m_moveBoundaryLeft s" "m_notes s"]
    by (simp add: l)
  ultimately show ?thesis
    using assms(1) by (simp add: shiftPos_def Let_def l)
qed

lemma shiftPos_sorted_nonneg_example:
  "map_option (\<lambda>s. map pos (m_notes s)) (shiftPos c7_state (- 100)) = Some [10, 0]"
  by (simp add: c7_state_def demo_def mkNote_def shiftPos_def isSelection_def)

text \<open>
  C7.  The loop of \<open>shiftPos\<close> carries the comment that notes are not let go out of
  bounds, but it clamps the amount against the first affected note only, and nothing
  puts the note vector back in order after a shift.  In \<open>c7_state\<close> a pattern holds
  notes at ticks 10 and 20, the second selected.  \<open>shiftPos\<close> by \<open>-15\<close> moves the second
  note to tick 5 in place, so the vector is no longer in order; after the selection is
  cleared, \<open>shiftPos\<close> by \<open>-10\<close> clamps against the note at tick 10 and leaves the other
  note at tick \<open>-5\<close>.  With no pattern, neither \<open>shiftPos\<close> nor \<open>shiftSemiTone\<close> has a
  result.
\<close>

theorem shiftPos_negative_position:
  "hasValidPattern c7_state
   \<and> map pos (m_notes c7_state) = [10, 20]
   \<and> map selected (m_notes c7_state) = [False, True]
   \<and> map_option (\<lambda>s. map pos (m_notes s)) (shiftPos c7_state (- 15)) = Some [10, 5]
   \<and> map_option (\<lambda>s. map pos (m_notes s))
        (Option.bind (shiftPos c7_state (- 15)) (\<lambda>s. shiftPos (clearSelectedNotes s) (- 10)))
       = Some [0, - 5]
   \<and> shiftPos (c7_state\<lparr>hasValidPattern := False\<rparr>) (- 15) = None
   \<and> shiftSemiTone (c7_state\<lparr>hasValidPattern := False\<rparr>) 1 = None"
  by (simp add: c7_state_def demo_def mkNote_def shiftPos_def shiftSemiTone_def isSelection_def
      clearSelectedNotes_def)

section \<open>Marking a scale (C8)\<close>

lemma crem_pos: "0 \<le> a \<Longrightarrow> 0 < b \<Longrightarrow> crem a b = a mod b"
  by (simp add: crem_def cdiv_nonneg minus_mult_div_eq_mod)

lemma crem_12_bound: "crem k 12 < 12"
proof (cases "0 \<le> k")
  case True
  then show ?thesis by (simp add: crem_pos)
next
  case False
  then have "crem k 12 = - ((- k) mod 12)"
    by (simp add: crem_def cdiv_neg minus_mult_div_eq_mod [symmetric])
  then show ?thesis by simp
qed

lemma crem_12_cong: "(i - crem k 12) mod 12 = (i - k) mod 12"
proof -
  have "i - crem k 12 = (i - k) + 12 * cdiv k 12"
    by (simp add: crem_def)
  then have "(i - crem k 12) mod 12 = ((i - k) + 12 * cdiv k 12) mod 12"
    by (simp only:)
  also have "\<dots> = (i - k) mod 12"
    by (rule mod_mult_self2)
  finally show ?thesis .
qed

text \<open>The test of the loop, for a scale: the key's distance from the reference key modulo 12.\<close>

lemma scale_test:
  assumes "0 \<le> i"
  shows "crem (i + KeysPerOctave - crem k KeysPerOctave) KeysPerOctave = (i - k) mod 12"
proof -
  have "0 \<le> i + 12 - crem k 12"
    using assms crem_12_bound [of k] by simp
  then have "crem (i + 12 - crem k 12) 12 = (i + 12 - crem k 12) mod 12"
    by (simp add: crem_pos)
  also have "\<dots> = (i - crem k 12) mod 12"
    by (metis add_diff_eq diff_add_eq mod_add_self2)
  also have "\<dots> = (i - k) mod 12"
    by (rule crem_12_cong)
  finally show ?thesis by (simp add: KeysPerOctave_def)
qed

lemma distinct_remdups_adj_sorted: "sorted xs \<Longrightarrow> distinct (remdups_adj xs)"
  by (induction xs rule: remdups_adj.induct) auto

lemma markChord_scale:
  assumes "isScale chord" and "\<not> isEmpty chord"
  shows "set (markChord s k chord marks) =
     {i. 0 \<le> i \<and> i \<le> NumKeys s \<and> (i - k) mod 12 \<in> set (semiTones chord)}"
  using assms by (auto simp add: markChord_def Let_def hasSemiTone_def scale_test)

text \<open>
  What the code does for a non-empty scale: the earlier marks are discarded and the
  result holds, without duplicates, exactly the keys from 0 to \<open>NumKeys\<close> inclusive whose
  distance from the reference key modulo 12 is an interval of the scale.
\<close>

lemma markSemiTone_scale:
  assumes "isScale (currentScale s)" and "\<not> isEmpty (currentScale s)"
  shows "set (m_markedSemiTones (markSemiTone s stmaMarkCurrentScale y)) =
     {i. 0 \<le> i \<and> i \<le> NumKeys s \<and>
         (i - getKey s y) mod 12 \<in> set (semiTones (currentScale s))}"
    and "distinct (m_markedSemiTones (markSemiTone s stmaMarkCurrentScale y))"
  using assms
  by (simp_all add: markSemiTone_def Let_def markChord_scale distinct_remdups_adj_sorted)

text \<open>
  C8.  The claim: the marks are exactly the keys \<open>k\<close> in \<open>[0, NumKeys)\<close> that pass the
  test.  The loop runs to \<open>NumKeys\<close> inclusive: with 10 octaves, the major scale and the
  reference key 60, the key 120 is marked.
\<close>

theorem markSemiTone_scale_marks_NumKeys:
  "NumKeys demo = 120 \<and> getKey demo 219 = 60
   \<and> 120 \<in> set (m_markedSemiTones (markSemiTone demo stmaMarkCurrentScale 219))"
proof -
  have k: "getKey demo 219 = 60"
    by (simp add: getKey_def demo_def keyAreaBottom_def KEY_LINE_HEIGHT_def
        PR_BOTTOM_MARGIN_def KeysPerOctave_def cdiv_def)
  have n: "NumKeys demo = 120"
    by (simp add: NumKeys_def demo_def KeysPerOctave_def)
  have "set (m_markedSemiTones (markSemiTone demo stmaMarkCurrentScale 219)) =
     {i. 0 \<le> i \<and> i \<le> NumKeys demo \<and>
         (i - getKey demo 219) mod 12 \<in> set (semiTones (currentScale demo))}"
    by (rule markSemiTone_scale) (simp_all add: demo_def isEmpty_def)
  then have "set (m_markedSemiTones (markSemiTone demo stmaMarkCurrentScale 219)) =
     {i. 0 \<le> i \<and> i \<le> 120 \<and> (i - 60) mod 12 \<in> set (semiTones (currentScale demo))}"
    by (simp only: k n)
  then have "120 \<in> set (m_markedSemiTones (markSemiTone demo stmaMarkCurrentScale 219))"
    by (simp add: demo_def)
  with k n show ?thesis by simp
qed

section \<open>Paste (C9)\<close>

lemma mset_addNote: "mset (addNote note ns) = add_mset note (mset ns)"
  by (simp add: addNote_def)

lemma mset_foldl_addNote:
  "mset (foldl (\<lambda>ns c. addNote (f c) ns) ns0 stored) = mset ns0 + mset (map f stored)"
  by (induction stored arbitrary: ns0) (simp_all add: mset_addNote)

lemma pasteNote_clear: "pasteNote (clearSelectedNotes s) = pasteNote s"
  by (rule ext) (simp add: pasteNote_def clearSelectedNotes_def)

text \<open>
  C9.  When a pattern is present and the clipboard holds notes, the note vector after
  \<open>pasteNotes\<close> consists of the earlier notes, each with its selection cleared, and one
  note for every stored note, selected and at the stored position plus the position of
  the time line.
\<close>

theorem pasteNotes_displacement:
  assumes "hasValidPattern s" and "clipboard s = Some stored"
  shows "mset (m_notes (pasteNotes s)) =
      mset (map (\<lambda>note. note\<lparr>selected := False\<rparr>) (m_notes s)) +
      mset (map (\<lambda>note. note\<lparr>pos := pos note + timeLinePos s, selected := True\<rparr>) stored)"
proof -
  have n: "m_notes (clearSelectedNotes s) = map (\<lambda>note. note\<lparr>selected := False\<rparr>) (m_notes s)"
    using assms by (simp add: clearSelectedNotes_def)
  have "m_notes (pasteNotes s) =
      foldl (\<lambda>ns c. addNote (pasteNote s c) ns) (m_notes (clearSelectedNotes s)) stored"
    using assms by (simp add: pasteNotes_def Let_def pasteNote_clear)
  then show ?thesis
    by (simp add: mset_foldl_addNote n pasteNote_def)
qed

theorem pasteNotes_displacement_witness:
  "mset (map (\<lambda>n. (pos n, selected n)) (m_notes (pasteNotes c9_state)))
     = {#(10, False), (20, False), (12, True), (17, True)#}"
proof -
  have "mset (m_notes (pasteNotes c9_state)) =
      mset (map (\<lambda>note. note\<lparr>selected := False\<rparr>) (m_notes c9_state)) +
      mset (map (\<lambda>note. note\<lparr>pos := pos note + timeLinePos c9_state, selected := True\<rparr>)
              [mkNote 0 48 60 False, mkNote 5 48 64 False])"
    by (rule pasteNotes_displacement) (simp_all add: c9_state_def demo_def)
  then have "image_mset (\<lambda>n. (pos n, selected n)) (mset (m_notes (pasteNotes c9_state))) =
      {#(10, False), (20, False), (12, True), (17, True)#}"
    by (simp add: c9_state_def demo_def mkNote_def)
  then show ?thesis by simp
qed

end
